(* ===== verification/Prelude.thy ===== *)
theory Prelude
  imports Main "HOL-Library.Word"
begin

text \<open>
  Types, hints and generic facts that every component of the development uses: the machine
  integers of the Rust code, the result type of fallible operations, the three fact collections
  the component proofs simplify with, and lemmas on rewriting the matching rows of a list.
\<close>

section \<open>Types\<close>

text \<open>
  Rust's \<^verbatim>\<open>u64\<close>, \<^verbatim>\<open>usize\<close> and \<^verbatim>\<open>i64\<close> are 64 bit words; an \<^verbatim>\<open>i64\<close> is read with \<^const>\<open>sint\<close>.
  A \<^verbatim>\<open>uuid::Uuid\<close> is its 128 bits. A \<^verbatim>\<open>String\<close> is the list of its UTF-8 bytes (a HOL
  \<^typ>\<open>char\<close> is a byte). \<^verbatim>\<open>Result<T, E>\<close> is \<^typ>\<open>'e + 'a\<close> with \<^const>\<open>Inl\<close> the error.
\<close>

type_synonym u64 = "64 word"
type_synonym i64 = "64 word"
type_synonym usize = "64 word"
type_synonym u8 = "8 word"
type_synonym uuid = "128 word"
type_synonym micros = int \<comment> \<open>a timestamp: microseconds, PostgreSQL's resolution\<close>
type_synonym nanos = nat \<comment> \<open>a monotonic instant or a duration, in nanoseconds\<close>

lemma unat_word_of_nat: "n < 2 ^ LENGTH('a) \<Longrightarrow> unat (word_of_nat n :: 'a::len word) = n"
  by (simp add: unsigned_of_nat take_bit_nat_eq_self)

lemma unat_u64_of_nat [simp]: "n < 2 ^ 64 \<Longrightarrow> unat (word_of_nat n :: u64) = n"
  by (simp add: unat_word_of_nat)

lemma unat_u64_of_int: "0 \<le> k \<Longrightarrow> k < 2 ^ 64 \<Longrightarrow> int (unat (word_of_int k :: u64)) = k"
  by (simp add: unsigned_of_int take_bit_int_eq_self)

lemma sint_i64_of_nat [simp]: "n < 2 ^ 63 \<Longrightarrow> sint (word_of_nat n :: i64) = int n"
  by (simp add: signed_of_nat signed_take_bit_int_eq_self_iff)

section \<open>Fact collections\<close>

named_theorems model_defs "definitions that component proofs unfold"
named_theorems frame_simps "what an operation leaves unchanged"
named_theorems row_simps "facts about the rows of a table"

section \<open>Results\<close>

definition is_ok :: "'e + 'a \<Rightarrow> bool" where
  "is_ok r = (case r of Inl _ \<Rightarrow> False | Inr _ \<Rightarrow> True)"

lemma is_ok_simps [simp]: "is_ok (Inl e) = False" "is_ok (Inr x) = True"
  by (simp_all add: is_ok_def)

lemma is_okE: "is_ok r \<Longrightarrow> (\<And>x. r = Inr x \<Longrightarrow> P) \<Longrightarrow> P"
  by (cases r) auto

text \<open>\<^verbatim>\<open>Result::map_err\<close>, the shape of most of the program's error paths.\<close>

definition map_err :: "('e \<Rightarrow> 'f) \<Rightarrow> 'e + 'a \<Rightarrow> 'f + 'a" where
  "map_err f r = (case r of Inl e \<Rightarrow> Inl (f e) | Inr x \<Rightarrow> Inr x)"

lemma map_err_simps [simp]: "map_err f (Inl e) = Inl (f e)" "map_err f (Inr x) = Inr x"
  by (simp_all add: map_err_def)

lemma map_err_Inr_iff [simp]: "map_err f r = Inr x \<longleftrightarrow> r = Inr x"
  by (cases r) auto

lemma map_err_Inl_iff [simp]: "map_err f r = Inl e \<longleftrightarrow> (\<exists>e'. r = Inl e' \<and> e = f e')"
  by (cases r) auto

section \<open>Rewriting the matching elements of a list\<close>

text \<open>
  What a conditional update does to a table: every matching element is rewritten in place, the
  others stay.
\<close>

definition upd_where :: "('a \<Rightarrow> bool) \<Rightarrow> ('a \<Rightarrow> 'a) \<Rightarrow> 'a list \<Rightarrow> 'a list" where
  "upd_where P f xs = map (\<lambda>x. if P x then f x else x) xs"

lemma upd_where_simps [simp]:
  "upd_where P f [] = []"
  "upd_where P f (x # xs) = (if P x then f x else x) # upd_where P f xs"
  by (simp_all add: upd_where_def)

lemma length_upd_where [simp]: "length (upd_where P f xs) = length xs"
  by (simp add: upd_where_def)

lemma map_upd_where:
  "(\<And>x. P x \<Longrightarrow> k (f x) = k x) \<Longrightarrow> map k (upd_where P f xs) = map k xs"
  by (induction xs) auto

lemma set_upd_where:
  "set (upd_where P f xs) = {x \<in> set xs. \<not> P x} \<union> f ` {x \<in> set xs. P x}"
  by (induction xs) auto

lemma upd_where_none: "\<forall>x \<in> set xs. \<not> P x \<Longrightarrow> upd_where P f xs = xs"
  by (induction xs) auto

lemma filter_upd_where_disjoint:
  assumes "\<And>x. P x \<Longrightarrow> \<not> Q x" and "\<And>x. P x \<Longrightarrow> \<not> Q (f x)"
  shows "filter Q (upd_where P f xs) = filter Q xs"
  using assms by (induction xs) auto

lemma find_upd_where_same:
  assumes "\<And>x. Q x \<Longrightarrow> P x" and "\<And>x. P x \<Longrightarrow> Q (f x) = Q x"
  shows "find Q (upd_where P f xs) = map_option f (find Q xs)"
  using assms by (induction xs) auto

lemma find_upd_where_other:
  assumes "\<And>x. P x \<Longrightarrow> \<not> Q x" and "\<And>x. P x \<Longrightarrow> \<not> Q (f x)"
  shows "find Q (upd_where P f xs) = find Q xs"
  using assms by (induction xs) auto

lemma find_filter_weaker:
  "(\<And>x. Q x \<Longrightarrow> P x) \<Longrightarrow> find Q (filter P xs) = find Q xs"
  by (induction xs) auto

lemma find_filter_none: "(\<And>x. P x \<Longrightarrow> \<not> Q x) \<Longrightarrow> find Q (filter P xs) = None"
  by (induction xs) auto

lemma find_append: "find P (xs @ ys) = (case find P xs of None \<Rightarrow> find P ys | Some x \<Rightarrow> Some x)"
  by (induction xs) auto

lemma find_SomeD: "find P xs = Some x \<Longrightarrow> x \<in> set xs \<and> P x"
  by (induction xs) (auto split: if_splits)

lemma find_key_distinct:
  assumes "distinct (map k xs)" and "x \<in> set xs"
  shows "find (\<lambda>y. k y = k x) xs = Some x"
  using assms by (induction xs) auto

lemma find_conj_distinct:
  assumes "distinct (map k xs)"
  shows "find (\<lambda>y. k y = a \<and> P y) xs =
    (case find (\<lambda>y. k y = a) xs of None \<Rightarrow> None | Some y \<Rightarrow> if P y then Some y else None)"
  using assms
proof (induction xs)
  case (Cons x xs)
  show ?case
  proof (cases "k x = a")
    case True
    with Cons.prems have "find (\<lambda>y. k y = a) xs = None" "find (\<lambda>y. k y = a \<and> P y) xs = None"
      by (auto simp: find_None_iff image_iff)
    with True show ?thesis by simp
  next
    case False
    with Cons show ?thesis by simp
  qed
qed simp

section \<open>Partial updates\<close>

text \<open>The later of two optional fields, and a field over a default.\<close>

definition later :: "'a option \<Rightarrow> 'a option \<Rightarrow> 'a option" where
  "later x y = (case y of None \<Rightarrow> x | Some v \<Rightarrow> Some v)"

definition or_keep :: "'a option \<Rightarrow> 'a \<Rightarrow> 'a" where
  "or_keep x d = (case x of None \<Rightarrow> d | Some v \<Rightarrow> v)"

lemma or_keep_simps [simp]: "or_keep None d = d" "or_keep (Some v) d = v"
  by (simp_all add: or_keep_def)

lemma later_simps [simp]: "later x None = x" "later x (Some v) = Some v" "later None y = y" "later x x = x"
  by (simp_all add: later_def split: option.splits)

lemma or_keep_later: "or_keep y (or_keep x d) = or_keep (later x y) d"
  by (cases y) simp_all

text \<open>The last value a list of optional values gives.\<close>

definition last_given :: "'a option list \<Rightarrow> 'a option" where
  "last_given xs = foldl later None xs"

lemma last_given_simps [simp]: "last_given [] = None" "last_given (xs @ [x]) = later (last_given xs) x"
  by (simp_all add: last_given_def)

lemma last_given_last: "last_given (xs @ Some x # replicate n None) = Some x"
  by (simp add: last_given_def) (induction n, simp_all)

text \<open>
  The contract of an update whose fields are all optional: an empty update changes nothing, and
  two updates in a row are one update in which the later fields win. The remote configuration
  and the SQL statement with \<^verbatim>\<open>COALESCE\<close> both keep it.
\<close>

locale partial_update =
  fixes act :: "'c \<Rightarrow> 'u \<Rightarrow> 'c"
    and then_update :: "'u \<Rightarrow> 'u \<Rightarrow> 'u"
    and no_update :: "'u"
  assumes act_none: "act c no_update = c"
    and act_then: "act (act c u) v = act c (then_update u v)"
    and then_idem: "then_update u u = u"
begin

lemma act_twice: "act (act c u) u = act c u"
  by (simp add: act_then then_idem)

lemma foldl_act_from: "foldl act (act c u) us = act c (foldl then_update u us)"
  by (induction us arbitrary: u) (simp_all add: act_then)

lemma foldl_act: "foldl act c us = act c (foldl then_update no_update us)"
  using foldl_act_from [of c no_update us] by (simp add: act_none)

text \<open>A component no single update can change is the same after any number of them.\<close>

text \<open>A setting that takes an update's field, if there is one, ends up with the last one given.\<close>

lemma foldl_field:
  "(\<And>c u. get (act c u) = or_keep (field u) (get c)) \<Longrightarrow>
   get (foldl act c us) = or_keep (last_given (map field us)) (get c)"
  by (induction us rule: rev_induct) (simp_all add: or_keep_later)

lemma foldl_frame: "(\<And>c u. view (act c u) = view c) \<Longrightarrow> view (foldl act c us) = view c"
  by (induction us arbitrary: c) simp_all

end

end
