(* ===== verification/Tasks.thy ===== *)
theory Tasks
  imports Prelude
begin

text \<open>
  Asynchronous code as the scheduler sees it. A task is what is left of an \<^verbatim>\<open>async fn\<close>: it has
  returned, or it waits to perform its next action on the shared state and then goes on. Between two
  actions other tasks may run; an action itself (one statement, one Redis command, one read of the
  configuration) is atomic. What an action waits for first (a connection of the pool, the limiter's
  lock, a server's answer) is not modelled: waiting is not being scheduled, a wait without end is a task
  that is never scheduled again, and a wait that is given up is an action that fails or a task
  that is dropped. The theory has the two ways of running a task, the composition
  \<^verbatim>\<open>.await?\<close> stands for, and a locale with the rule for safety under interference.
\<close>

section \<open>Tasks\<close>

datatype ('s, 'a) task = Done 'a | Act "'s \<Rightarrow> ('s, 'a) task \<times> 's"

text \<open>Running a task to its end with nobody else on the state.\<close>

primrec run_task :: "('s, 'a) task \<Rightarrow> 's \<Rightarrow> 'a \<times> 's" where
  "run_task (Done x) = (\<lambda>s. (x, s))"
| "run_task (Act f) = (\<lambda>s. let (k, s') = map_prod run_task id (f s) in k s')"

text \<open>One action of a task; a task that has returned does nothing.\<close>

definition poll :: "('s, 'a) task \<Rightarrow> 's \<Rightarrow> ('s, 'a) task \<times> 's" where
  "poll t s = (case t of Done x \<Rightarrow> (Done x, s) | Act f \<Rightarrow> f s)"

text \<open>A single atomic action, and sequencing.\<close>

definition act :: "('s \<Rightarrow> 'a \<times> 's) \<Rightarrow> ('s, 'a) task" where
  "act f = Act (\<lambda>s. map_prod Done id (f s))"

primrec and_then :: "('s, 'a) task \<Rightarrow> ('a \<Rightarrow> ('s, 'b) task) \<Rightarrow> ('s, 'b) task" where
  "and_then (Done x) k = k x"
| "and_then (Act f) k = Act (\<lambda>s. map_prod (\<lambda>t. and_then t k) id (f s))"

definition map_result :: "('a \<Rightarrow> 'b) \<Rightarrow> ('s, 'a) task \<Rightarrow> ('s, 'b) task" where
  "map_result g t = and_then t (\<lambda>x. Done (g x))"

lemma poll_simps [simp]: "poll (Done x) s = (Done x, s)" "poll (Act f) s = f s"
  by (simp_all add: poll_def)

lemma run_task_Act [simp]: "run_task (Act f) s = run_task (fst (f s)) (snd (f s))"
  by (simp add: split_beta)

lemma run_task_Done [simp]: "run_task (Done x) s = (x, s)"
  by simp

declare run_task.simps [simp del]

lemma run_act [simp]: "run_task (act f) s = f s"
  by (simp add: act_def)

lemma run_and_then [simp]: "run_task (and_then t k) s = (case run_task t s of (x, s') \<Rightarrow> run_task (k x) s')"
  by (induction t arbitrary: s) (auto simp: split_beta prod_set_defs)

lemma run_map_result [simp]: "run_task (map_result g t) s = map_prod g id (run_task t s)"
  by (simp add: map_result_def split: prod.splits)

lemma run_poll: "run_task (fst (poll t s)) (snd (poll t s)) = run_task t s"
  by (cases t) simp_all

lemma and_then_act [simp]: "and_then (act f) k = Act (\<lambda>s. map_prod k id (f s))"
  by (simp add: act_def map_prod_def split_beta)

lemma and_then_assoc: "and_then (and_then t k) k' = and_then t (\<lambda>x. and_then (k x) k')"
  by (induction t) (auto simp: map_prod_def split_beta prod_set_defs)

section \<open>How many actions a task has\<close>

inductive steps_le :: "nat \<Rightarrow> ('s, 'a) task \<Rightarrow> bool" where
  steps_le_Done [intro, simp]: "steps_le n (Done x)"
| steps_le_Act: "(\<And>s. steps_le n (fst (f s))) \<Longrightarrow> steps_le (Suc n) (Act f)"

inductive_simps steps_le_simps [simp]: "steps_le n (Done x)" "steps_le 0 (Act f)" "steps_le (Suc n) (Act f)"

lemma steps_le_poll: "steps_le n t \<Longrightarrow> steps_le (n - 1) (fst (poll t s))"
  by (cases rule: steps_le.cases) auto

lemma steps_le_mono: "steps_le n t \<Longrightarrow> n \<le> m \<Longrightarrow> steps_le m t"
proof (induction arbitrary: m rule: steps_le.induct)
  case (steps_le_Act n f)
  then obtain k where "m = Suc k" "n \<le> k" by (cases m) auto
  with steps_le_Act show ?case by auto
qed simp

lemma steps_le_and_then:
  "steps_le n t \<Longrightarrow> (\<And>x. steps_le m (k x)) \<Longrightarrow> steps_le (n + m) (and_then t k)"
proof (induction rule: steps_le.induct)
  case (steps_le_Done n x)
  show ?case using steps_le_mono [OF steps_le_Done, of "n + m"] by simp
next
  case (steps_le_Act n f)
  then show ?case by (simp add: split_beta)
qed

lemma steps_le_map_result: "steps_le n t \<Longrightarrow> steps_le n (map_result g t)"
  using steps_le_and_then [of n t 0 "\<lambda>x. Done (g x)"] by (simp add: map_result_def)

lemma steps_le_Suc: "steps_le n t \<Longrightarrow> steps_le (Suc n) t"
  by (erule steps_le_mono) simp

lemma steps_le_act_then: "(\<And>x. steps_le n (k x)) \<Longrightarrow> steps_le (Suc n) (and_then (act f) k)"
  by (simp add: split_beta)

text \<open>A task that may take no more actions has returned.\<close>

lemma steps_le_zero: "steps_le 0 t \<Longrightarrow> \<exists>x. t = Done x"
  by (cases t) auto

section \<open>Cutting a task short\<close>

text \<open>
  A timer that gives up on a task: the task performs at most \<open>n\<close> actions; if it has not returned by
  then it is dropped and \<open>r\<close> is the result in its stead.
\<close>

primrec cut_task :: "'a \<Rightarrow> ('s, 'a) task \<Rightarrow> nat \<Rightarrow> ('s, 'a) task" where
  "cut_task r (Done x) = (\<lambda>n. Done x)"
| "cut_task r (Act f) = (\<lambda>n. case n of
     0 \<Rightarrow> Done r
   | Suc m \<Rightarrow> Act (\<lambda>s. map_prod (\<lambda>t. t m) id (map_prod (cut_task r) id (f s))))"

lemma cut_simps [simp]:
  "cut_task r (Done x) n = Done x" "cut_task r (Act f) 0 = Done r"
  "cut_task r (Act f) (Suc n) = Act (\<lambda>s. (cut_task r (fst (f s)) n, snd (f s)))"
  by (simp_all add: map_prod_def split_beta)

declare cut_task.simps [simp del]

lemma steps_le_cut: "steps_le n t \<Longrightarrow> steps_le n (cut_task r t k)"
proof (induction arbitrary: k rule: steps_le.induct)
  case (steps_le_Act n f)
  then show ?case by (cases k) auto
qed simp

lemma cut_long: "steps_le n t \<Longrightarrow> n \<le> k \<Longrightarrow> run_task (cut_task r t k) s = run_task t s"
proof (induction arbitrary: k s rule: steps_le.induct)
  case (steps_le_Act n f)
  then show ?case by (cases k) auto
qed simp

section \<open>Tasks that write once\<close>

text \<open>
  With respect to a part \<open>v\<close> of the state: a task that never changes it, and a task that changes it
  in one of its actions at most. Of the second kind, a task cut short has done all or nothing.
\<close>

inductive quiet :: "('s \<Rightarrow> 'v) \<Rightarrow> ('s, 'a) task \<Rightarrow> bool" for v where
  quiet_Done [intro, simp]: "quiet v (Done x)"
| quiet_Act: "(\<And>s. v (snd (f s)) = v s \<and> quiet v (fst (f s))) \<Longrightarrow> quiet v (Act f)"

inductive writes_once :: "('s \<Rightarrow> 'v) \<Rightarrow> ('s, 'a) task \<Rightarrow> bool" for v where
  writes_once_Done [intro, simp]: "writes_once v (Done x)"
| writes_once_Act: "(\<And>s. v (snd (f s)) = v s \<and> writes_once v (fst (f s)) \<or> quiet v (fst (f s))) \<Longrightarrow>
    writes_once v (Act f)"

lemma quiet_run: "quiet v t \<Longrightarrow> v (snd (run_task t s)) = v s"
  by (induction arbitrary: s rule: quiet.induct) simp_all

lemma quiet_cut: "quiet v t \<Longrightarrow> quiet v (cut_task r t n)"
proof (induction arbitrary: n rule: quiet.induct)
  case (quiet_Act f)
  then show ?case by (cases n) (auto intro!: quiet.quiet_Act)
qed simp

lemma writes_once_cut:
  "writes_once v t \<Longrightarrow> v (snd (run_task (cut_task r t n) s)) \<in> {v s, v (snd (run_task t s))}"
proof (induction arbitrary: n s rule: writes_once.induct)
  case (writes_once_Act f)
  show ?case
  proof (cases n)
    case (Suc m)
    from writes_once_Act [of s] show ?thesis
    proof
      assume "v (snd (f s)) = v s \<and> writes_once v (fst (f s)) \<and>
        (\<forall>n s'. v (snd (run_task (cut_task r (fst (f s)) n) s')) \<in> {v s', v (snd (run_task (fst (f s)) s'))})"
      then have "v (snd (f s)) = v s" and
        "v (snd (run_task (cut_task r (fst (f s)) m) (snd (f s)))) \<in> {v (snd (f s)), v (snd (run_task (fst (f s)) (snd (f s))))}"
        by blast+
      with Suc show ?thesis by simp
    next
      assume q: "quiet v (fst (f s))"
      with Suc show ?thesis by (simp add: quiet_run [OF q] quiet_run [OF quiet_cut [OF q]])
    qed
  qed simp
qed simp

lemma quiet_poll: "quiet v t \<Longrightarrow> v (snd (poll t s)) = v s \<and> quiet v (fst (poll t s))"
  by (erule quiet.cases) auto

lemma writes_once_poll:
  "writes_once v t \<Longrightarrow> v (snd (poll t s)) = v s \<and> writes_once v (fst (poll t s)) \<or> quiet v (fst (poll t s))"
  by (erule writes_once.cases) auto

lemma writes_once_cut_task: "writes_once v t \<Longrightarrow> writes_once v (cut_task r t n)"
proof (induction arbitrary: n rule: writes_once.induct)
  case (writes_once_Act f)
  show ?case
  proof (cases n)
    case (Suc m)
    have "v (snd (f s)) = v s \<and> writes_once v (cut_task r (fst (f s)) m) \<or> quiet v (cut_task r (fst (f s)) m)" for s
      using writes_once_Act [of s] quiet_cut [of v "fst (f s)" r m] by auto
    then show ?thesis unfolding Suc cut_simps by (intro writes_once.writes_once_Act) simp
  qed simp
qed simp

lemma quiet_and_then: "quiet v t \<Longrightarrow> (\<And>x. quiet v (k x)) \<Longrightarrow> quiet v (and_then t k)"
  by (induction rule: quiet.induct) (auto simp: split_beta intro!: quiet_Act)

lemma quiet_act: "(\<And>s. v (snd (f s)) = v s) \<Longrightarrow> quiet v (act f)"
  by (auto simp: act_def intro!: quiet_Act)

lemma quiet_once: "quiet v t \<Longrightarrow> writes_once v t"
  by (induction rule: quiet.induct) (auto intro: writes_once_Act)

lemma writes_once_act: "writes_once v (act f)"
  by (auto simp: act_def intro!: writes_once_Act)

text \<open>Sequencing: something quiet may come before or after the writer.\<close>

lemma writes_once_then_quiet: "writes_once v t \<Longrightarrow> (\<And>x. quiet v (k x)) \<Longrightarrow> writes_once v (and_then t k)"
proof (induction rule: writes_once.induct)
  case (writes_once_Act f)
  show ?case
    by (simp add: split_beta, rule writes_once.writes_once_Act, simp)
      (use writes_once_Act quiet_and_then in blast)
qed (auto intro: quiet_once)

lemma quiet_then_writes_once: "quiet v t \<Longrightarrow> (\<And>x. writes_once v (k x)) \<Longrightarrow> writes_once v (and_then t k)"
  by (induction rule: quiet.induct) (auto simp: split_beta intro!: writes_once_Act)

lemma map_result_writes:
  "quiet v t \<Longrightarrow> quiet v (map_result g t)" "writes_once v t \<Longrightarrow> writes_once v (map_result g t)"
  by (auto simp: map_result_def intro: quiet_and_then writes_once_then_quiet)

section \<open>What a task may return\<close>

text \<open>All results of a task satisfy \<open>P\<close>, whatever states its actions meet.\<close>

inductive yields :: "('a \<Rightarrow> bool) \<Rightarrow> ('s, 'a) task \<Rightarrow> bool" for P where
  yields_Done: "P x \<Longrightarrow> yields P (Done x)"
| yields_Act: "(\<And>s. yields P (fst (f s))) \<Longrightarrow> yields P (Act f)"

inductive_simps yields_Done_iff [simp]: "yields P (Done x)"

lemma yields_poll: "yields P t \<Longrightarrow> yields P (fst (poll t s))"
  by (erule yields.cases) simp_all

lemma yields_run: "yields P t \<Longrightarrow> P (fst (run_task t s))"
  by (induction arbitrary: s rule: yields.induct) simp_all

lemma yields_cut: "yields P t \<Longrightarrow> P r \<Longrightarrow> yields P (cut_task r t n)"
proof (induction arbitrary: n rule: yields.induct)
  case (yields_Act f)
  then show ?case by (cases n) (auto intro!: yields.yields_Act)
qed simp

lemma yields_and_then: "yields Q t \<Longrightarrow> (\<And>x. Q x \<Longrightarrow> yields P (k x)) \<Longrightarrow> yields P (and_then t k)"
  by (induction rule: yields.induct) (auto simp: split_beta intro!: yields_Act)

lemma yields_True: "yields (\<lambda>_. True) t"
proof (induction t)
  case (Act f)
  show ?case by (rule yields_Act, rule Act.IH) (auto simp: prod_set_defs)
qed simp

lemma yields_then: "(\<And>x. yields P (k x)) \<Longrightarrow> yields P (and_then t k)"
  by (rule yields_and_then [OF yields_True])

lemma yields_map_result: "yields Q t \<Longrightarrow> (\<And>x. Q x \<Longrightarrow> P (g x)) \<Longrightarrow> yields P (map_result g t)"
  unfolding map_result_def by (erule yields_and_then) simp

lemma yields_act: "(\<And>s. P (fst (f s))) \<Longrightarrow> yields P (act f)"
  by (auto simp: act_def intro!: yields_Act)

lemma yields_mono: "yields P t \<Longrightarrow> (\<And>x. P x \<Longrightarrow> Q x) \<Longrightarrow> yields Q t"
  by (induction rule: yields.induct) (auto intro: yields.intros)

section \<open>Safety under interference\<close>

text \<open>
  \<open>inv w s\<close> is an invariant of the shared state relative to what is known so far, \<open>w\<close>, which only
  grows; \<open>upd s w\<close> is what is known after seeing \<open>s\<close>. A task is safe when, from every state other
  tasks may have left, its action keeps the invariant and its guarantee \<open>G\<close> towards the others, and
  its result is good when it returns.
\<close>

locale interference =
  fixes inv :: "'w \<Rightarrow> 's \<Rightarrow> bool"
    and le :: "'w \<Rightarrow> 'w \<Rightarrow> bool"
    and upd :: "'s \<Rightarrow> 'w \<Rightarrow> 'w"
  assumes le_refl: "le w w"
    and le_trans: "le u v \<Longrightarrow> le v w \<Longrightarrow> le u w"
    and upd_le: "le w (upd s w)"
    and inv_upd: "inv w s \<Longrightarrow> inv (upd s w) s"
begin

inductive safe :: "('s \<Rightarrow> 's \<Rightarrow> bool) \<Rightarrow> ('w \<Rightarrow> 'a \<Rightarrow> bool) \<Rightarrow> 'w \<Rightarrow> ('s, 'a) task \<Rightarrow> bool" for G Q where
  safe_Done: "(\<And>w'. le w w' \<Longrightarrow> Q w' x) \<Longrightarrow> safe G Q w (Done x)"
| safe_Act: "(\<And>w' s. le w w' \<Longrightarrow> inv w' s \<Longrightarrow>
      inv (upd (snd (f s)) w') (snd (f s)) \<and> (snd (f s) = s \<or> G s (snd (f s))) \<and>
      safe G Q (upd (snd (f s)) w') (fst (f s))) \<Longrightarrow>
    safe G Q w (Act f)"

inductive_cases safe_DoneE: "safe G Q w (Done x)"
inductive_cases safe_ActE: "safe G Q w (Act f)"

lemma safe_result: "safe G Q w (Done x) \<Longrightarrow> Q w x"
  by (erule safe_DoneE) (simp add: le_refl)

lemma safe_mono: "safe G Q w t \<Longrightarrow> le w w' \<Longrightarrow> safe G Q w' t"
  by (erule safe.cases) (auto intro: safe.intros le_trans)

lemma safe_poll:
  "safe G Q w t \<Longrightarrow> inv w s \<Longrightarrow>
   inv (upd (snd (poll t s)) w) (snd (poll t s)) \<and> (snd (poll t s) = s \<or> G s (snd (poll t s))) \<and>
   safe G Q (upd (snd (poll t s)) w) (fst (poll t s))"
  by (cases t) (auto elim!: safe_DoneE safe_ActE intro!: safe_Done intro: upd_le le_refl le_trans inv_upd)

lemma safe_and_then:
  "safe G P w t \<Longrightarrow> (\<And>w' x. le w w' \<Longrightarrow> (\<And>w''. le w' w'' \<Longrightarrow> P w'' x) \<Longrightarrow> safe G Q w' (k x)) \<Longrightarrow>
   safe G Q w (and_then t k)"
proof (induction rule: safe.induct)
  case (safe_Done w x)
  then show ?case by (auto intro: le_refl)
next
  case (safe_Act w f)
  have step: "inv (upd (snd (f s)) w') (snd (f s)) \<and> (snd (f s) = s \<or> G s (snd (f s))) \<and>
      safe G Q (upd (snd (f s)) w') (and_then (fst (f s)) k)"
    if "le w w'" "inv w' s" for w' s
    using safe_Act.IH [OF that] safe_Act.prems le_trans [OF that(1) le_trans [OF upd_le]] by blast
  show ?case
    by (simp add: split_beta, rule safe.safe_Act) (simp add: step)
qed

lemma safe_map_result:
  "safe G P w t \<Longrightarrow> (\<And>w' x. le w w' \<Longrightarrow> P w' x \<Longrightarrow> Q w' (g x)) \<Longrightarrow> safe G Q w (map_result g t)"
  unfolding map_result_def by (erule safe_and_then) (auto intro!: safe_Done intro: le_trans)

text \<open>The rules for one action: one that changes the state, and one that only reads.\<close>

lemma safe_act_then:
  assumes "\<And>w' s x s'. le w w' \<Longrightarrow> inv w' s \<Longrightarrow> f s = (x, s') \<Longrightarrow>
    inv (upd s' w') s' \<and> (s' = s \<or> G s s') \<and> safe G Q (upd s' w') (k x)"
  shows "safe G Q w (and_then (act f) k)"
  by (simp add: split_beta, rule safe_Act) (use assms [OF _ _ prod.collapse [symmetric]] in simp)

lemma safe_read_then:
  assumes "\<And>s. snd (f s) = s" and "\<And>w' s. le w w' \<Longrightarrow> inv w' s \<Longrightarrow> safe G Q w' (k (fst (f s)))"
  shows "safe G Q w (and_then (act f) k)"
  by (rule safe_act_then) (metis assms fst_conv snd_conv inv_upd safe_mono upd_le)

text \<open>A timer on a safe task is safe when what it answers is good.\<close>

lemma safe_cut: "safe G Q w t \<Longrightarrow> (\<And>w'. le w w' \<Longrightarrow> Q w' r) \<Longrightarrow> safe G Q w (cut_task r t n)"
proof (induction arbitrary: n rule: safe.induct)
  case (safe_Done w x)
  then show ?case by (auto intro: safe.safe_Done)
next
  case (safe_Act w f)
  show ?case
  proof (cases n)
    case 0
    then show ?thesis using safe_Act.prems by (auto intro: safe.safe_Done)
  next
    case (Suc m)
    then show ?thesis
      by simp (rule safe.safe_Act, use safe_Act.IH safe_Act.prems in \<open>simp, meson le_trans upd_le\<close>)
  qed
qed

lemma safe_weaken:
  "safe G P w t \<Longrightarrow> (\<And>w' x. le w w' \<Longrightarrow> P w' x \<Longrightarrow> Q w' x) \<Longrightarrow> safe G Q w t"
proof (induction rule: safe.induct)
  case (safe_Act w f)
  show ?case
    by (rule safe.safe_Act) (meson safe_Act le_trans upd_le)
qed (auto intro: safe.intros)

end

end
