(* ===== verification/Rust_Std.thy ===== *)
theory Rust_Std
  imports Prelude
begin

text \<open>
  The operations of the Rust standard library the program calls on strings, iterators and
  integers: \<^verbatim>\<open>str::starts_with\<close>, \<^verbatim>\<open>strip_prefix\<close>, \<^verbatim>\<open>contains\<close>, \<^verbatim>\<open>u64::from_str\<close>,
  \<^verbatim>\<open>i64::from_str\<close>, \<^verbatim>\<open>to_string\<close>, \<^verbatim>\<open>saturating_sub\<close>, \<^verbatim>\<open>clamp\<close>, \<^verbatim>\<open>max\<close> and
  \<^verbatim>\<open>bytes().cycle().take(n)\<close>. They are definitions and not parameters, since the program's
  branches depend on them. The lemmas relate each to what it promises.
\<close>

section \<open>Strings\<close>

definition starts_with :: "string \<Rightarrow> string \<Rightarrow> bool" where
  "starts_with p s = (take (length p) s = p)"

definition strip_prefix :: "string \<Rightarrow> string \<Rightarrow> string option" where
  "strip_prefix p s = (if starts_with p s then Some (drop (length p) s) else None)"

fun str_contains :: "string \<Rightarrow> string \<Rightarrow> bool" where
  "str_contains n [] = (n = [])"
| "str_contains n (c # cs) = (starts_with n (c # cs) \<or> str_contains n cs)"

lemma starts_with_iff: "starts_with p s \<longleftrightarrow> (\<exists>t. s = p @ t)"
  by (auto simp: starts_with_def) (metis append_take_drop_id)

lemma strip_prefix_Some_iff: "strip_prefix p s = Some t \<longleftrightarrow> s = p @ t"
  by (auto simp: strip_prefix_def starts_with_iff)

lemma strip_prefix_append [simp]: "strip_prefix p (p @ t) = Some t"
  by (simp add: strip_prefix_Some_iff)

lemma strip_prefix_None_iff: "strip_prefix p s = None \<longleftrightarrow> (\<forall>t. s \<noteq> p @ t)"
  by (auto simp: strip_prefix_def starts_with_iff)

lemma str_contains_iff: "str_contains n s \<longleftrightarrow> (\<exists>a b. s = a @ n @ b)"
proof (induction s)
  case (Cons c cs)
  show ?case
  proof
    assume "str_contains n (c # cs)"
    then consider "starts_with n (c # cs)" | "str_contains n cs" by auto
    then show "\<exists>a b. c # cs = a @ n @ b"
    proof cases
      case 1
      then obtain t where "c # cs = [] @ n @ t" by (auto simp: starts_with_iff)
      then show ?thesis by blast
    next
      case 2
      with Cons.IH obtain a b where "cs = a @ n @ b" by blast
      then have "c # cs = (c # a) @ n @ b" by simp
      then show ?thesis by blast
    qed
  next
    assume "\<exists>a b. c # cs = a @ n @ b"
    then obtain a b where ab: "c # cs = a @ n @ b" by blast
    show "str_contains n (c # cs)"
    proof (cases a)
      case Nil
      with ab have "starts_with n (c # cs)" by (auto simp: starts_with_iff)
      then show ?thesis by simp
    next
      case (Cons d a')
      with ab have "cs = a' @ n @ b" by simp
      with Cons.IH show ?thesis by auto
    qed
  qed
qed simp

section \<open>Integers as text\<close>

definition digit_val :: "char \<Rightarrow> nat option" where
  "digit_val c = (let n = (of_char c :: nat) in if 48 \<le> n \<and> n \<le> 57 then Some (n - 48) else None)"

fun digits_val :: "nat \<Rightarrow> string \<Rightarrow> nat option" where
  "digits_val acc [] = Some acc"
| "digits_val acc (c # cs) =
     (case digit_val c of None \<Rightarrow> None | Some d \<Rightarrow> digits_val (acc * 10 + d) cs)"

text \<open>
  \<^verbatim>\<open>u64::from_str\<close>: an optional plus sign, at least one digit, no other character, and a value
  that fits. \<^verbatim>\<open>i64::from_str\<close> takes a minus sign as well.
\<close>

definition parse_nat :: "string \<Rightarrow> nat option" where
  "parse_nat s = (if s = [] then None else digits_val 0 s)"

definition parse_u64 :: "string \<Rightarrow> u64 option" where
  "parse_u64 s =
     (case parse_nat (case strip_prefix ''+'' s of Some t \<Rightarrow> t | None \<Rightarrow> s) of
        None \<Rightarrow> None
      | Some n \<Rightarrow> if n < 2 ^ 64 then Some (word_of_nat n) else None)"

definition parse_i64 :: "string \<Rightarrow> i64 option" where
  "parse_i64 s =
     (case strip_prefix ''-'' s of
        Some t \<Rightarrow>
          (case parse_nat t of
             None \<Rightarrow> None
           | Some n \<Rightarrow> if n \<le> 2 ^ 63 then Some (word_of_int (- int n)) else None)
      | None \<Rightarrow>
          (case parse_nat (case strip_prefix ''+'' s of Some t \<Rightarrow> t | None \<Rightarrow> s) of
             None \<Rightarrow> None
           | Some n \<Rightarrow> if n < 2 ^ 63 then Some (word_of_nat n) else None))"

text \<open>\<^verbatim>\<open>to_string\<close> on an unsigned integer: decimal, no leading zero.\<close>

definition digit_char :: "nat \<Rightarrow> char" where
  "digit_char d = char_of (48 + d)"

fun show_nat :: "nat \<Rightarrow> string" where
  "show_nat n = (if n < 10 then [digit_char n] else show_nat (n div 10) @ [digit_char (n mod 10)])"

declare show_nat.simps [simp del]

definition show_u64 :: "u64 \<Rightarrow> string" where
  "show_u64 w = show_nat (unat w)"

lemma digit_val_char [simp]: "d < 10 \<Longrightarrow> digit_val (digit_char d) = Some d"
  by (simp add: digit_val_def digit_char_def)

lemma digits_val_append:
  "digits_val a (s @ t) = (case digits_val a s of None \<Rightarrow> None | Some b \<Rightarrow> digits_val b t)"
  by (induction a s rule: digits_val.induct) (auto split: option.splits)

lemma digits_val_show: "digits_val 0 (show_nat n) = Some n"
proof (induction n rule: show_nat.induct)
  case (1 n)
  then show ?case
    by (subst show_nat.simps) (auto simp: digits_val_append)
qed

lemma show_nat_nonempty [simp]: "show_nat n \<noteq> []"
  by (subst show_nat.simps) simp

lemma hd_show_nat: "\<exists>d < 10. hd (show_nat n) = digit_char d"
proof (induction n rule: show_nat.induct)
  case (1 n)
  then show ?case by (subst show_nat.simps) (auto simp: hd_append)
qed

lemma digit_char_not_sign: "d < 10 \<Longrightarrow> digit_char d \<noteq> CHR ''+'' \<and> digit_char d \<noteq> CHR ''-''"
  by (auto simp: digit_char_def dest!: arg_cong [where f = "of_char :: char \<Rightarrow> nat"])

lemma show_nat_no_sign:
  "strip_prefix ''+'' (show_nat n) = None" "strip_prefix ''-'' (show_nat n) = None"
proof -
  obtain d where "d < 10" and "hd (show_nat n) = digit_char d"
    using hd_show_nat by blast
  then have "hd (show_nat n) \<noteq> CHR ''+''" "hd (show_nat n) \<noteq> CHR ''-''"
    using digit_char_not_sign by auto
  then show "strip_prefix ''+'' (show_nat n) = None" "strip_prefix ''-'' (show_nat n) = None"
    by (auto simp: strip_prefix_None_iff)
qed

lemma parse_show_u64: "parse_u64 (show_u64 w) = Some w"
proof -
  have "unat w < 2 ^ 64" using unsigned_less [of w] by simp
  then show ?thesis
    by (simp add: parse_u64_def show_u64_def show_nat_no_sign parse_nat_def digits_val_show)
qed

definition show_i64 :: "i64 \<Rightarrow> string" where
  "show_i64 w = (if sint w < 0 then CHR ''-'' # show_nat (nat (- sint w)) else show_nat (nat (sint w)))"

lemma sint64_range: "- (2 ^ 63) \<le> sint (w :: i64)" "sint (w :: i64) < 2 ^ 63"
  using sint_greater_eq [of w] sint_lt [of w] by simp_all

lemma parse_show_i64: "parse_i64 (show_i64 w) = Some w"
proof (cases "sint w < 0")
  case True
  then have "nat (- sint w) \<le> 2 ^ 63" using sint64_range (1) [of w] by simp
  with True show ?thesis
    by (simp add: parse_i64_def show_i64_def strip_prefix_def starts_with_def parse_nat_def
        digits_val_show)
next
  case False
  then have "nat (sint w) < 2 ^ 63" using sint64_range (2) [of w] by simp
  with False show ?thesis
    by (simp add: parse_i64_def show_i64_def show_nat_no_sign parse_nat_def digits_val_show)
qed

section \<open>Arithmetic\<close>

definition saturating_sub :: "u64 \<Rightarrow> u64 \<Rightarrow> u64" where
  "saturating_sub a b = (if b \<le> a then a - b else 0)"

lemma unat_saturating_sub: "unat (saturating_sub a b) = unat a - unat b"
  by (auto simp: saturating_sub_def unat_sub word_le_nat_alt)

text \<open>Signed comparison reads both words with \<^const>\<open>sint\<close>.\<close>

definition i64_clamp :: "i64 \<Rightarrow> i64 \<Rightarrow> i64 \<Rightarrow> i64" where
  "i64_clamp lo hi x = (if sint x < sint lo then lo else if sint hi < sint x then hi else x)"

definition i64_max :: "i64 \<Rightarrow> i64 \<Rightarrow> i64" where
  "i64_max a x = (if sint x < sint a then a else x)"

lemma sint_i64_clamp: "sint lo \<le> sint hi \<Longrightarrow> sint (i64_clamp lo hi x) = max (sint lo) (min (sint hi) (sint x))"
  by (auto simp: i64_clamp_def)

lemma sint_i64_max: "sint (i64_max a x) = max (sint a) (sint x)"
  by (auto simp: i64_max_def)

section \<open>Iterators\<close>

text \<open>\<^verbatim>\<open>bytes().cycle().take(n)\<close>: cycling over nothing yields nothing.\<close>

definition cycle_take :: "nat \<Rightarrow> 'a list \<Rightarrow> 'a list" where
  "cycle_take n xs = (if xs = [] then [] else map (\<lambda>i. xs ! (i mod length xs)) [0..<n])"

lemma length_cycle_take: "length (cycle_take n xs) = (if xs = [] then 0 else n)"
  by (simp add: cycle_take_def)

lemma set_cycle_take: "set (cycle_take n xs) \<subseteq> set xs"
  by (auto simp: cycle_take_def)

lemma cycle_take_short: "n \<le> length xs \<Longrightarrow> cycle_take n xs = take n xs"
  by (auto simp: cycle_take_def intro: nth_equalityI)

end
