(* ===== verification/Models.thy ===== *)
theory Models
  imports Rust_Std
begin

text \<open>
  The domain types of \<^verbatim>\<open>crates/backup-service/src/models.rs\<close>: the status enum and its text form,
  the database row, the request and response types with the conversion between them, the list
  parameters with their defaults and the JWT claims. The type variable of the responses stands
  for Rust's \<^verbatim>\<open>f64\<close>, whose operations are a parameter of the development.
\<close>

section \<open>Backup status\<close>

datatype backup_status = Pending | Running | Completed | Failed

text \<open>\<^verbatim>\<open>Display\<close> for \<^verbatim>\<open>BackupStatus\<close>; the database column holds this text.\<close>

fun status_fmt :: "backup_status \<Rightarrow> string" where
  "status_fmt Pending = ''pending''"
| "status_fmt Running = ''running''"
| "status_fmt Completed = ''completed''"
| "status_fmt Failed = ''failed''"

text \<open>
  The derived \<^verbatim>\<open>Deserialize\<close>, with \<^verbatim>\<open>rename_all = "lowercase"\<close>: the four lower case names and
  nothing else.
\<close>

definition status_parse :: "string \<Rightarrow> backup_status option" where
  "status_parse s =
     (if s = ''pending'' then Some Pending
      else if s = ''running'' then Some Running
      else if s = ''completed'' then Some Completed
      else if s = ''failed'' then Some Failed
      else None)"

lemma status_parse_fmt [simp]: "status_parse (status_fmt s) = Some s"
  by (cases s) (simp_all add: status_parse_def)

lemma status_parse_Some_iff: "status_parse x = Some s \<longleftrightarrow> x = status_fmt s"
  by (cases s) (auto simp: status_parse_def)

lemma status_fmt_inj [simp]: "status_fmt s = status_fmt t \<longleftrightarrow> s = t"
  by (metis option.inject status_parse_fmt)

section \<open>The database row\<close>

record backup =
  b_id :: uuid
  b_tenant_id :: uuid
  b_source_path :: string
  b_size_bytes :: i64
  b_status :: string
  b_encryption_enabled :: bool
  b_created_at :: micros
  b_updated_at :: micros

section \<open>Requests and responses\<close>

record create_request =
  cr_source_path :: string
  cr_encryption_enabled :: bool

record update_request =
  ur_status :: "backup_status option"
  ur_size_bytes :: "i64 option"

record 'f backup_response =
  r_id :: uuid
  r_tenant_id :: uuid
  r_source_path :: string
  r_size_bytes :: i64
  r_status :: string
  r_encryption_enabled :: bool
  r_created_at :: micros
  r_updated_at :: micros
  r_entropy :: "'f option"

text \<open>\<^verbatim>\<open>impl From<Backup> for BackupResponse\<close>.\<close>

definition response_of :: "backup \<Rightarrow> 'f backup_response" where
  "response_of b =
     \<lparr> r_id = b_id b,
       r_tenant_id = b_tenant_id b,
       r_source_path = b_source_path b,
       r_size_bytes = b_size_bytes b,
       r_status = b_status b,
       r_encryption_enabled = b_encryption_enabled b,
       r_created_at = b_created_at b,
       r_updated_at = b_updated_at b,
       r_entropy = None \<rparr>"

lemma response_of_sel [simp]:
  "r_id (response_of b) = b_id b"
  "r_tenant_id (response_of b) = b_tenant_id b"
  "r_source_path (response_of b) = b_source_path b"
  "r_size_bytes (response_of b) = b_size_bytes b"
  "r_status (response_of b) = b_status b"
  "r_encryption_enabled (response_of b) = b_encryption_enabled b"
  "r_created_at (response_of b) = b_created_at b"
  "r_updated_at (response_of b) = b_updated_at b"
  "r_entropy (response_of b) = None"
  by (simp_all add: response_of_def)

text \<open>The conversion loses nothing: a response without an entropy determines its row.\<close>

lemma response_of_inj: "(response_of a :: 'f backup_response) = response_of b \<longleftrightarrow> a = b"
  by (auto simp: response_of_def)

record list_params =
  lp_offset :: i64
  lp_limit :: i64
  lp_status :: "string option"

definition default_limit :: i64 where
  "default_limit = 20"

text \<open>
  What the query extractor makes of the optional query parameters: an absent offset is the
  default of \<^verbatim>\<open>i64\<close> and an absent limit is \<^const>\<open>default_limit\<close>.
\<close>

definition list_params_of :: "i64 option \<Rightarrow> i64 option \<Rightarrow> string option \<Rightarrow> list_params" where
  "list_params_of off lim st =
     \<lparr> lp_offset = (case off of None \<Rightarrow> 0 | Some x \<Rightarrow> x),
       lp_limit = (case lim of None \<Rightarrow> default_limit | Some x \<Rightarrow> x),
       lp_status = st \<rparr>"

record 'a list_response =
  lr_items :: "'a list"
  lr_total :: i64
  lr_offset :: i64
  lr_limit :: i64

section \<open>JWT claims\<close>

record claims =
  cl_sub :: string
  cl_tenant_id :: uuid
  cl_roles :: "string list"
  cl_exp :: usize
  cl_iat :: usize

end
