(* ===== verification/Errors.thy ===== *)
theory Errors
  imports Models
begin

text \<open>
  \<^verbatim>\<open>crates/backup-service/src/errors.rs\<close>: the error enum every handler returns and its rendering
  as an HTTP response. Errors of the drivers carry the driver's text, which the rendering must
  not pass on to the client.
\<close>

section \<open>Driver errors\<close>

text \<open>
  \<^verbatim>\<open>sqlx::Error\<close>, by the cases the statements of this program can meet: the connection failed, a
  key or a check constraint was violated, a text parameter held a zero byte, or a limit was negative, which PostgreSQL
  refuses.
\<close>

datatype pg_error = PgConnection string | PgUniqueViolation | PgCheckViolation | PgBadText | PgNegativeLimit

datatype redis_error = RedisError string

datatype jwt_error = JwtError string

section \<open>The application's errors\<close>

datatype app_error =
    NotFound string
  | Unauthorized string
  | Forbidden string
  | Validation string
  | Conflict string
  | Database pg_error
  | Redis redis_error
  | Jwt jwt_error
  | Internal string

text \<open>\<^verbatim>\<open>impl IntoResponse for AppError\<close>: the status line, then the two fields of the JSON body.\<close>

record error_response =
  er_code :: nat
  er_error :: string
  er_status :: nat

fun error_parts :: "app_error \<Rightarrow> nat \<times> string" where
  "error_parts (NotFound msg) = (404, msg)"
| "error_parts (Unauthorized msg) = (401, msg)"
| "error_parts (Forbidden msg) = (403, msg)"
| "error_parts (Validation msg) = (400, msg)"
| "error_parts (Conflict msg) = (409, msg)"
| "error_parts (Database e) = (500, ''internal server error'')"
| "error_parts (Redis e) = (500, ''internal server error'')"
| "error_parts (Jwt e) = (401, ''invalid token'')"
| "error_parts (Internal e) = (500, ''internal server error'')"

definition into_response :: "app_error \<Rightarrow> error_response" where
  "into_response e =
     (let (status, message) = error_parts e
      in \<lparr> er_code = status, er_error = message, er_status = status \<rparr>)"

text \<open>Errors whose payload is the driver's or the runtime's own text.\<close>

fun is_opaque :: "app_error \<Rightarrow> bool" where
  "is_opaque (Database _) = True"
| "is_opaque (Redis _) = True"
| "is_opaque (Jwt _) = True"
| "is_opaque (Internal _) = True"
| "is_opaque _ = False"

text \<open>The same error without its payload.\<close>

fun error_kind :: "app_error \<Rightarrow> nat" where
  "error_kind (NotFound _) = 0"
| "error_kind (Unauthorized _) = 1"
| "error_kind (Forbidden _) = 2"
| "error_kind (Validation _) = 3"
| "error_kind (Conflict _) = 4"
| "error_kind (Database _) = 5"
| "error_kind (Redis _) = 6"
| "error_kind (Jwt _) = 7"
| "error_kind (Internal _) = 8"

lemma into_response_code_eq [simp]: "er_status (into_response e) = er_code (into_response e)"
  by (simp add: into_response_def split: prod.splits)

lemma into_response_codes: "er_code (into_response e) \<in> {400, 401, 403, 404, 409, 500}"
  by (cases e) (simp_all add: into_response_def)

lemma into_response_opaque:
  "is_opaque e \<Longrightarrow> is_opaque e' \<Longrightarrow> error_kind e = error_kind e' \<Longrightarrow> into_response e = into_response e'"
  by (cases e; cases e') (simp_all add: into_response_def)

lemma into_response_500: "er_code (into_response e) = 500 \<Longrightarrow> er_error (into_response e) = ''internal server error''"
  by (cases e) (simp_all add: into_response_def)

text \<open>
  An error response repeats its status code in the body, the code is always one of six client
  or server error codes, and the text of a driver or runtime error never reaches the client: two
  such errors of one kind render to the same response, whatever they carry.
\<close>

theorem error_rendering:
  "er_status (into_response e) = er_code (into_response e) \<and>
   er_code (into_response e) \<in> {400, 401, 403, 404, 409, 500} \<and>
   into_response (Database d) = into_response (Database d') \<and>
   into_response (Redis r) = into_response (Redis r') \<and>
   into_response (Jwt j) = into_response (Jwt j') \<and>
   into_response (Internal m) = into_response (Internal m')"
  using into_response_codes [of e] into_response_opaque by simp

end
