(* ===== verification/Backup_Table.thy ===== *)
theory Backup_Table
  imports Errors "HOL-Library.Multiset"
begin

text \<open>
  The table \<^verbatim>\<open>backups\<close> of \<^verbatim>\<open>migrations/001_create_backups.sql\<close> and every SQL statement the Rust
  code sends to it, translated statement by statement: the two statements of the REST handlers
  that read, the three that write, the two list queries with their counts, and the three updates
  of the gRPC service. A table is the list of its rows in no meaningful order. The server's own
  choices are parameters: the generated key, the clock, the order it gives rows with equal
  \<^verbatim>\<open>created_at\<close> (the \<^verbatim>\<open>planner\<close>) and what becomes of the connection (a \<^verbatim>\<open>link\<close>).
\<close>

section \<open>The table and its constraints\<close>

type_synonym table = "backup list"

text \<open>The check constraint of the column \<^verbatim>\<open>status\<close>, and the text type's ban on zero bytes.\<close>

definition status_check :: "string \<Rightarrow> bool" where
  "status_check s = (s \<in> {''pending'', ''running'', ''completed'', ''failed''})"

definition text_ok :: "string \<Rightarrow> bool" where
  "text_ok s = (CHR 0x00 \<notin> set s)"

definition table_ok :: "table \<Rightarrow> bool" where
  "table_ok t = (distinct (map b_id t) \<and> (\<forall>b \<in> set t. status_check (b_status b)))"

text \<open>What no statement ever rewrites in a row.\<close>

definition row_core :: "backup \<Rightarrow> uuid \<times> uuid \<times> string \<times> bool \<times> micros" where
  "row_core b = (b_id b, b_tenant_id b, b_source_path b, b_encryption_enabled b, b_created_at b)"

lemma status_check_iff: "status_check s \<longleftrightarrow> (\<exists>st. s = status_fmt st)"
proof
  assume "status_check s"
  then consider "s = ''pending''" | "s = ''running''" | "s = ''completed''" | "s = ''failed''"
    by (auto simp: status_check_def)
  then show "\<exists>st. s = status_fmt st"
    by cases (metis status_fmt.simps)+
next
  assume "\<exists>st. s = status_fmt st"
  then obtain st where "s = status_fmt st" ..
  then show "status_check s" by (cases st) (simp_all add: status_check_def)
qed

lemma status_check_fmt [simp]: "status_check (status_fmt st)"
  by (auto simp: status_check_iff)

lemma status_check_literals [simp]:
  "status_check ''pending''" "status_check ''running''" "status_check ''completed''" "status_check ''failed''"
  by (simp_all add: status_check_def)

section \<open>Statements and the connection\<close>

type_synonym 'a stmt = "table \<Rightarrow> (pg_error + 'a) \<times> table"

text \<open>
  The fate of one statement: it is executed and answered, it never reaches the server, or it is
  executed and the answer is lost. The caller sees the same error in the last two cases.
\<close>

datatype link = Up | Refused string | Lost string

definition pg_exec :: "link \<Rightarrow> ('s \<Rightarrow> (pg_error + 'a) \<times> 's) \<Rightarrow> 's \<Rightarrow> (pg_error + 'a) \<times> 's" where
  "pg_exec l run t =
     (case l of
        Up \<Rightarrow> run t
      | Refused e \<Rightarrow> (Inl (PgConnection e), t)
      | Lost e \<Rightarrow> (Inl (PgConnection e), snd (run t)))"

lemma pg_exec_simps [simp]:
  "pg_exec Up run t = run t"
  "pg_exec (Refused e) run t = (Inl (PgConnection e), t)"
  "pg_exec (Lost e) run t = (Inl (PgConnection e), snd (run t))"
  by (simp_all add: pg_exec_def)

lemma pg_exec_Inr: "fst (pg_exec l run t) = Inr x \<Longrightarrow> l = Up \<and> fst (run t) = Inr x"
  by (cases l) auto

lemma pg_exec_snd: "snd (pg_exec l run t) = t \<or> snd (pg_exec l run t) = snd (run t)"
  by (cases l) auto

section \<open>The statements of the REST handlers\<close>

definition new_row :: "uuid \<Rightarrow> micros \<Rightarrow> uuid \<Rightarrow> string \<Rightarrow> bool \<Rightarrow> backup" where
  "new_row i now tn path enc =
     \<lparr> b_id = i, b_tenant_id = tn, b_source_path = path, b_size_bytes = 0, b_status = ''pending'',
       b_encryption_enabled = enc, b_created_at = now, b_updated_at = now \<rparr>"

text \<open>\<^verbatim>\<open>INSERT INTO backups (tenant_id, source_path, encryption_enabled) ... RETURNING ...\<close>\<close>

definition sql_insert :: "uuid \<Rightarrow> micros \<Rightarrow> uuid \<Rightarrow> string \<Rightarrow> bool \<Rightarrow> backup stmt" where
  "sql_insert i now tn path enc t =
     (if \<not> text_ok path then (Inl PgBadText, t)
      else if i \<in> b_id ` set t then (Inl PgUniqueViolation, t)
      else (Inr (new_row i now tn path enc), t @ [new_row i now tn path enc]))"

definition owned :: "uuid \<Rightarrow> uuid \<Rightarrow> backup \<Rightarrow> bool" where
  "owned i tn b = (b_id b = i \<and> b_tenant_id b = tn)"

text \<open>\<^verbatim>\<open>SELECT ... FROM backups WHERE id = $1 AND tenant_id = $2\<close>\<close>

definition sql_select :: "uuid \<Rightarrow> uuid \<Rightarrow> backup option stmt" where
  "sql_select i tn t = (Inr (find (owned i tn) t), t)"

text \<open>An update of the matching rows: all of them or, when one breaks the check, none.\<close>

definition update_rows :: "(backup \<Rightarrow> bool) \<Rightarrow> (backup \<Rightarrow> backup) \<Rightarrow> backup list stmt" where
  "update_rows P f t =
     (if \<exists>b \<in> set t. P b \<and> \<not> status_check (b_status (f b)) then (Inl PgCheckViolation, t)
      else (Inr (map f (filter P t)), upd_where P f t))"

definition coalesce_row :: "string option \<Rightarrow> i64 option \<Rightarrow> micros \<Rightarrow> backup \<Rightarrow> backup" where
  "coalesce_row st sz now b =
     b\<lparr> b_status := or_keep st (b_status b),
        b_size_bytes := or_keep sz (b_size_bytes b),
        b_updated_at := now \<rparr>"

text \<open>\<^verbatim>\<open>UPDATE backups SET status = COALESCE($3, status), ... RETURNING ...\<close>\<close>

definition sql_update :: "uuid \<Rightarrow> uuid \<Rightarrow> string option \<Rightarrow> i64 option \<Rightarrow> micros \<Rightarrow> backup option stmt" where
  "sql_update i tn st sz now t =
     (case update_rows (owned i tn) (coalesce_row st sz now) t of
        (Inl e, t') \<Rightarrow> (Inl e, t')
      | (Inr rows, t') \<Rightarrow> (Inr (case rows of [] \<Rightarrow> None | b # _ \<Rightarrow> Some b), t'))"

text \<open>\<^verbatim>\<open>DELETE FROM backups WHERE id = $1 AND tenant_id = $2\<close>, with the rows affected.\<close>

definition sql_delete :: "uuid \<Rightarrow> uuid \<Rightarrow> nat stmt" where
  "sql_delete i tn t = (Inr (length (filter (owned i tn) t)), filter (\<lambda>b. \<not> owned i tn b) t)"

text \<open>The list queries: all rows of a tenant, or those with a given status.\<close>

definition listed :: "uuid \<Rightarrow> string option \<Rightarrow> backup \<Rightarrow> bool" where
  "listed tn st b = (b_tenant_id b = tn \<and> (case st of None \<Rightarrow> True | Some s \<Rightarrow> b_status b = s))"

definition page :: "i64 \<Rightarrow> i64 \<Rightarrow> 'a list \<Rightarrow> 'a list" where
  "page lim off xs = take (nat (sint lim)) (drop (nat (sint off)) xs)"

definition sql_page :: "(i64 \<Rightarrow> i64 \<Rightarrow> table \<Rightarrow> table) \<Rightarrow> uuid \<Rightarrow> string option \<Rightarrow> i64 \<Rightarrow> i64 \<Rightarrow> backup list stmt" where
  "sql_page ord tn st lim off t =
     (if (case st of None \<Rightarrow> False | Some s \<Rightarrow> \<not> text_ok s) then (Inl PgBadText, t)
      else if sint lim < 0 \<or> sint off < 0 then (Inl PgNegativeLimit, t)
      else (Inr (page lim off (ord lim off (filter (listed tn st) t))), t))"

definition sql_count :: "uuid \<Rightarrow> string option \<Rightarrow> i64 stmt" where
  "sql_count tn st t =
     (if (case st of None \<Rightarrow> False | Some s \<Rightarrow> \<not> text_ok s) then (Inl PgBadText, t)
      else (Inr (word_of_nat (length (filter (listed tn st) t))), t))"

section \<open>The statements of the gRPC service\<close>

definition set_status_row :: "string \<Rightarrow> micros \<Rightarrow> backup \<Rightarrow> backup" where
  "set_status_row s now b = b\<lparr> b_status := s, b_updated_at := now \<rparr>"

definition complete_row :: "i64 \<Rightarrow> micros \<Rightarrow> backup \<Rightarrow> backup" where
  "complete_row sz now b = b\<lparr> b_status := ''completed'', b_size_bytes := sz, b_updated_at := now \<rparr>"

text \<open>\<^verbatim>\<open>UPDATE backups SET status = $2, updated_at = now() WHERE id = $1\<close>\<close>

definition sql_set_status :: "uuid \<Rightarrow> string \<Rightarrow> micros \<Rightarrow> nat stmt" where
  "sql_set_status i s now t =
     (if \<not> text_ok s then (Inl PgBadText, t)
      else (case update_rows (\<lambda>b. b_id b = i) (set_status_row s now) t of
              (r, t') \<Rightarrow> (map_sum id length r, t')))"

text \<open>The two updates of \<^verbatim>\<open>report_result\<close>.\<close>

definition sql_complete :: "uuid \<Rightarrow> i64 \<Rightarrow> micros \<Rightarrow> nat stmt" where
  "sql_complete i sz now t =
     (case update_rows (\<lambda>b. b_id b = i) (complete_row sz now) t of (r, t') \<Rightarrow> (map_sum id length r, t'))"

definition sql_fail :: "uuid \<Rightarrow> micros \<Rightarrow> nat stmt" where
  "sql_fail i now t =
     (case update_rows (\<lambda>b. b_id b = i) (set_status_row ''failed'' now) t of
        (r, t') \<Rightarrow> (map_sum id length r, t'))"


section \<open>What every statement keeps\<close>

text \<open>
  The contract of a statement towards its callers: constraints hold afterwards, a failed statement
  changes nothing, and rows are never given another owner, path or creation time. Sent over any
  link it keeps the same laws, which the handlers rely on without knowing the statement.
\<close>

locale table_stmt =
  fixes run :: "'a stmt"
  assumes keeps_ok: "table_ok t \<Longrightarrow> table_ok (snd (run t))"
    and error_noop: "fst (run t) = Inl e \<Longrightarrow> snd (run t) = t"
    and core_kept: "b \<in> set (snd (run t)) \<Longrightarrow> b_id b \<in> b_id ` set t \<Longrightarrow> row_core b \<in> row_core ` set t"
begin

lemma exec_keeps_ok: "table_ok t \<Longrightarrow> table_ok (snd (pg_exec l run t))"
  by (cases l) (simp_all add: keeps_ok)

lemma exec_core_kept:
  "b \<in> set (snd (pg_exec l run t)) \<Longrightarrow> b_id b \<in> b_id ` set t \<Longrightarrow> row_core b \<in> row_core ` set t"
  using core_kept by (cases l) auto

lemma exec_error: "fst (pg_exec l run t) = Inl e \<Longrightarrow> snd (pg_exec l run t) = t \<or> (\<exists>m. l = Lost m)"
  using error_noop by (cases l) auto

end

text \<open>A statement bound to one tenant leaves the rows of all others alone.\<close>

locale tenant_stmt = table_stmt run for run :: "'a stmt" +
  fixes T :: uuid
  assumes others_kept: "filter (\<lambda>b. b_tenant_id b \<noteq> T) (snd (run t)) = filter (\<lambda>b. b_tenant_id b \<noteq> T) t"
begin

lemma exec_others_kept:
  "filter (\<lambda>b. b_tenant_id b \<noteq> T) (snd (pg_exec l run t)) = filter (\<lambda>b. b_tenant_id b \<noteq> T) t"
  by (cases l) (simp_all add: others_kept)

end

text \<open>A statement bound to one row leaves all other rows alone.\<close>

locale row_stmt = table_stmt run for run :: "'a stmt" +
  fixes i :: uuid
  assumes rows_kept: "filter (\<lambda>b. b_id b \<noteq> i) (snd (run t)) = filter (\<lambda>b. b_id b \<noteq> i) t"
begin

lemma exec_rows_kept:
  "filter (\<lambda>b. b_id b \<noteq> i) (snd (pg_exec l run t)) = filter (\<lambda>b. b_id b \<noteq> i) t"
  by (cases l) (simp_all add: rows_kept)

lemma exec_find_kept: "j \<noteq> i \<Longrightarrow> find (\<lambda>b. b_id b = j) (snd (pg_exec l run t)) = find (\<lambda>b. b_id b = j) t"
  using exec_rows_kept [of l t] find_filter_weaker [of "\<lambda>b. b_id b = j" "\<lambda>b. b_id b \<noteq> i"] by metis

end

text \<open>A query keeps every contract.\<close>

locale read_stmt =
  fixes run :: "'a stmt"
  assumes read_only: "snd (run t) = t"
begin

lemma exec_read_only: "snd (pg_exec l run t) = t"
  by (cases l) (simp_all add: read_only)

end

sublocale read_stmt \<subseteq> table_stmt
  by unfold_locales (auto simp: read_only)

text \<open>\<open>update_rows\<close>, the core of all five updates.\<close>

definition keeps_core :: "(backup \<Rightarrow> backup) \<Rightarrow> bool" where
  "keeps_core f = (\<forall>b. row_core (f b) = row_core b)"

lemma row_core_fields:
  "row_core a = row_core b \<longleftrightarrow> b_id a = b_id b \<and> b_tenant_id a = b_tenant_id b \<and>
     b_source_path a = b_source_path b \<and> b_encryption_enabled a = b_encryption_enabled b \<and>
     b_created_at a = b_created_at b"
  by (simp add: row_core_def)

lemma keeps_coreD: "keeps_core f \<Longrightarrow> b_id (f b) = b_id b \<and> b_tenant_id (f b) = b_tenant_id b"
  by (simp add: keeps_core_def row_core_fields)

lemma keeps_core_rows [simp]:
  "keeps_core (coalesce_row st sz now)" "keeps_core (set_status_row s now)" "keeps_core (complete_row n now)"
  by (simp_all add: keeps_core_def row_core_fields coalesce_row_def set_status_row_def complete_row_def)

lemma row_fields [simp]:
  "b_status (coalesce_row st sz now b) = or_keep st (b_status b)"
  "b_size_bytes (coalesce_row st sz now b) = or_keep sz (b_size_bytes b)"
  "b_updated_at (coalesce_row st sz now b) = now"
  "b_status (set_status_row s now b) = s"
  "b_size_bytes (set_status_row s now b) = b_size_bytes b"
  "b_updated_at (set_status_row s now b) = now"
  "b_status (complete_row n now b) = ''completed''"
  "b_size_bytes (complete_row n now b) = n"
  "b_updated_at (complete_row n now b) = now"
  by (simp_all add: coalesce_row_def set_status_row_def complete_row_def)

lemma update_rows_ok:
  assumes "keeps_core f" and "table_ok t"
  shows "table_ok (snd (update_rows P f t))"
proof -
  have "map b_id (upd_where P f t) = map b_id t"
    using keeps_coreD [OF assms(1)] by (intro map_upd_where) simp
  with assms(2) show ?thesis
    by (auto simp: update_rows_def table_ok_def set_upd_where)
qed

lemma update_rows_core:
  "keeps_core f \<Longrightarrow> b \<in> set (snd (update_rows P f t)) \<Longrightarrow> row_core b \<in> row_core ` set t"
  by (auto simp: update_rows_def set_upd_where keeps_core_def split: if_splits)

lemma update_rows_others:
  "keeps_core f \<Longrightarrow> (\<And>b. P b \<Longrightarrow> b_tenant_id b = T) \<Longrightarrow>
   filter (\<lambda>b. b_tenant_id b \<noteq> T) (snd (update_rows P f t)) = filter (\<lambda>b. b_tenant_id b \<noteq> T) t"
  by (auto simp: update_rows_def keeps_coreD intro!: filter_upd_where_disjoint)

lemma update_rows_rest:
  "keeps_core f \<Longrightarrow> (\<And>b. P b \<Longrightarrow> b_id b = i) \<Longrightarrow>
   filter (\<lambda>b. b_id b \<noteq> i) (snd (update_rows P f t)) = filter (\<lambda>b. b_id b \<noteq> i) t"
  by (auto simp: update_rows_def keeps_coreD intro!: filter_upd_where_disjoint)

lemma update_rows_error: "fst (update_rows P f t) = Inl e \<Longrightarrow> snd (update_rows P f t) = t"
  by (auto simp: update_rows_def split: if_splits)

lemma snd_updates [simp]:
  "snd (sql_update i tn st sz now t) = snd (update_rows (owned i tn) (coalesce_row st sz now) t)"
  "snd (sql_complete i n now t) = snd (update_rows (\<lambda>b. b_id b = i) (complete_row n now) t)"
  "snd (sql_fail i now t) = snd (update_rows (\<lambda>b. b_id b = i) (set_status_row ''failed'' now) t)"
  "text_ok s \<Longrightarrow> snd (sql_set_status i s now t) = snd (update_rows (\<lambda>b. b_id b = i) (set_status_row s now) t)"
  by (simp_all add: sql_update_def sql_complete_def sql_fail_def sql_set_status_def split: prod.splits sum.splits)

lemma snd_set_status_bad: "\<not> text_ok s \<Longrightarrow> snd (sql_set_status i s now t) = t"
  by (simp add: sql_set_status_def)

lemma updates_error:
  "fst (sql_update i tn st sz now t) = Inl e \<Longrightarrow> snd (sql_update i tn st sz now t) = t"
  "fst (sql_complete i n now t) = Inl e \<Longrightarrow> snd (sql_complete i n now t) = t"
  "fst (sql_fail i now t) = Inl e \<Longrightarrow> snd (sql_fail i now t) = t"
  "fst (sql_set_status i s now t) = Inl e \<Longrightarrow> snd (sql_set_status i s now t) = t"
  by (auto simp: sql_update_def sql_complete_def sql_fail_def sql_set_status_def update_rows_def
      split: if_splits)

section \<open>The statements keep their contracts\<close>

interpretation ins: tenant_stmt "sql_insert i now tn path enc" tn for i now tn path enc
  by unfold_locales
    (auto simp: sql_insert_def table_ok_def new_row_def split: if_splits)

interpretation upd: tenant_stmt "sql_update i tn st sz now" tn for i tn st sz now
  by unfold_locales
    (auto simp: owned_def intro: update_rows_ok update_rows_others dest: updates_error update_rows_core [rotated])

interpretation upd_row: row_stmt "sql_update i tn st sz now" i for i tn st sz now
  by unfold_locales (auto simp: owned_def intro: update_rows_rest)

interpretation del: tenant_stmt "sql_delete i tn" tn for i tn
  by unfold_locales
    (auto simp: sql_delete_def table_ok_def owned_def distinct_map_filter intro!: filter_cong)

interpretation del_row: row_stmt "sql_delete i tn" i for i tn
  by unfold_locales (auto simp: sql_delete_def owned_def intro!: filter_cong)

interpretation set_status: row_stmt "sql_set_status i s now" i for i s now
  by (unfold_locales; cases "text_ok s")
    (auto simp: snd_set_status_bad intro: update_rows_ok update_rows_rest
      dest: updates_error update_rows_core [rotated])

interpretation complete: row_stmt "sql_complete i sz now" i for i sz now
  by unfold_locales
    (auto intro: update_rows_ok update_rows_rest dest: updates_error update_rows_core [rotated])

interpretation fail: row_stmt "sql_fail i now" i for i now
  by unfold_locales
    (auto intro: update_rows_ok update_rows_rest dest: updates_error update_rows_core [rotated])

interpretation sel: read_stmt "sql_select i tn" for i tn
  by unfold_locales (simp add: sql_select_def)

interpretation page: read_stmt "sql_page ord tn st lim off" for ord tn st lim off
  by unfold_locales (simp add: sql_page_def)

interpretation count: read_stmt "sql_count tn st" for tn st
  by unfold_locales (simp add: sql_count_def)


section \<open>What the statements return\<close>

abbreviation row_of :: "uuid \<Rightarrow> table \<Rightarrow> backup option" where
  "row_of i t \<equiv> find (\<lambda>b. b_id b = i) t"

lemma table_ok_distinct: "table_ok t \<Longrightarrow> distinct (map b_id t)"
  by (simp add: table_ok_def)

lemma find_owned:
  "table_ok t \<Longrightarrow> find (owned i tn) t =
    (case row_of i t of None \<Rightarrow> None | Some b \<Rightarrow> if b_tenant_id b = tn then Some b else None)"
  unfolding owned_def by (rule find_conj_distinct) (rule table_ok_distinct)

lemma find_ownedD: "find (owned i tn) t = Some b \<Longrightarrow> b \<in> set t \<and> b_id b = i \<and> b_tenant_id b = tn"
  using find_SomeD [of "owned i tn" t b] by (simp add: owned_def)

lemma row_of_None_iff: "row_of i t = None \<longleftrightarrow> i \<notin> b_id ` set t"
  by (auto simp: find_None_iff)

lemma row_of_SomeD: "row_of i t = Some b \<Longrightarrow> b \<in> set t \<and> b_id b = i"
  using find_SomeD by fastforce

lemma row_of_member: "table_ok t \<Longrightarrow> b \<in> set t \<Longrightarrow> row_of (b_id b) t = Some b"
  by (rule find_key_distinct) (rule table_ok_distinct)

lemma filter_id_row_of:
  "table_ok t \<Longrightarrow> filter (\<lambda>b. b_id b = i) t = (case row_of i t of None \<Rightarrow> [] | Some b \<Rightarrow> [b])"
proof (induction t)
  case (Cons b t)
  have "b_id b = i \<Longrightarrow> filter (\<lambda>b. b_id b = i) t = []"
    using Cons.prems by (auto simp: table_ok_def filter_empty_conv) (metis image_eqI)
  moreover have "table_ok t" using Cons.prems by (simp add: table_ok_def)
  ultimately show ?case using Cons.IH by (cases "b_id b = i") simp_all
qed simp

lemma filter_owned: "filter (owned i tn) t = filter (\<lambda>b. b_tenant_id b = tn) (filter (\<lambda>b. b_id b = i) t)"
  by (simp add: owned_def [abs_def] conj_commute)

lemma rows_affected:
  "table_ok t \<Longrightarrow> length (filter (\<lambda>b. b_id b = i) t) = (if row_of i t = None then 0 else 1)"
  by (simp add: filter_id_row_of split: option.splits)

lemma sql_insert_Inr:
  "fst (sql_insert i now tn path enc t) = Inr b \<Longrightarrow>
   b = new_row i now tn path enc \<and> row_of i t = None \<and> snd (sql_insert i now tn path enc t) = t @ [b]"
  by (auto simp: sql_insert_def row_of_None_iff split: if_splits)

lemma update_rows_by_id:
  assumes "table_ok t" and "keeps_core f" and "\<And>b. status_check (b_status b) \<Longrightarrow> status_check (b_status (f b))"
  shows "update_rows (\<lambda>b. b_id b = i) f t =
    (Inr (case row_of i t of None \<Rightarrow> [] | Some b \<Rightarrow> [f b]), upd_where (\<lambda>b. b_id b = i) f t)"
    and "row_of i (upd_where (\<lambda>b. b_id b = i) f t) = map_option f (row_of i t)"
proof -
  have "\<not> (\<exists>b \<in> set t. b_id b = i \<and> \<not> status_check (b_status (f b)))"
    using assms(1,3) by (auto simp: table_ok_def)
  then show "update_rows (\<lambda>b. b_id b = i) f t =
    (Inr (case row_of i t of None \<Rightarrow> [] | Some b \<Rightarrow> [f b]), upd_where (\<lambda>b. b_id b = i) f t)"
    by (simp add: update_rows_def filter_id_row_of [OF assms(1)] split: option.splits)
  show "row_of i (upd_where (\<lambda>b. b_id b = i) f t) = map_option f (row_of i t)"
    using keeps_coreD [OF assms(2)] by (intro find_upd_where_same) simp_all
qed

lemma status_text_ok: "status_check s \<Longrightarrow> text_ok s"
  by (auto simp: status_check_def text_ok_def)

lemma sql_set_status_eq:
  assumes "table_ok t" and "status_check s"
  shows "fst (sql_set_status i s now t) = Inr (if row_of i t = None then 0 else 1)"
    and "row_of i (snd (sql_set_status i s now t)) = map_option (set_status_row s now) (row_of i t)"
  using update_rows_by_id [OF assms(1), of "set_status_row s now" i] assms(2)
  by (simp_all add: sql_set_status_def status_text_ok split: option.splits)

lemma sql_set_status_bad:
  assumes "table_ok t" and "\<not> status_check s"
  shows "fst (sql_set_status i s now t) =
      (if \<not> text_ok s then Inl PgBadText else if row_of i t = None then Inr 0 else Inl PgCheckViolation)"
    and "snd (sql_set_status i s now t) = t"
  using assms
  by (auto simp: sql_set_status_def update_rows_def row_of_None_iff upd_where_none filter_empty_conv)

lemma sql_complete_eq:
  assumes "table_ok t"
  shows "fst (sql_complete i n now t) = Inr (if row_of i t = None then 0 else 1)"
    and "row_of i (snd (sql_complete i n now t)) = map_option (complete_row n now) (row_of i t)"
  using update_rows_by_id [OF assms, of "complete_row n now" i]
  by (simp_all add: sql_complete_def split: option.splits)

lemma sql_fail_eq:
  assumes "table_ok t"
  shows "fst (sql_fail i now t) = Inr (if row_of i t = None then 0 else 1)"
    and "row_of i (snd (sql_fail i now t)) = map_option (set_status_row ''failed'' now) (row_of i t)"
  using update_rows_by_id [OF assms, of "set_status_row ''failed'' now" i]
  by (simp_all add: sql_fail_def split: option.splits)

definition owned_row :: "uuid \<Rightarrow> uuid \<Rightarrow> table \<Rightarrow> backup option" where
  "owned_row i tn t = find (owned i tn) t"

lemma filter_owned_row:
  "table_ok t \<Longrightarrow> filter (owned i tn) t = (case owned_row i tn t of None \<Rightarrow> [] | Some b \<Rightarrow> [b])"
  by (simp add: filter_owned filter_id_row_of owned_row_def find_owned split: option.splits)

lemma sql_update_eq:
  assumes "table_ok t" and "case st of None \<Rightarrow> True | Some s \<Rightarrow> status_check s"
  shows "fst (sql_update i tn st sz now t) = Inr (map_option (coalesce_row st sz now) (owned_row i tn t))"
    and "owned_row i tn (snd (sql_update i tn st sz now t)) = map_option (coalesce_row st sz now) (owned_row i tn t)"
proof -
  let ?f = "coalesce_row st sz now"
  have "\<not> (\<exists>b \<in> set t. owned i tn b \<and> \<not> status_check (b_status (?f b)))"
    using assms by (auto simp: table_ok_def split: option.splits)
  then have *: "update_rows (owned i tn) ?f t = (Inr (map ?f (filter (owned i tn) t)), upd_where (owned i tn) ?f t)"
    unfolding update_rows_def by (rule if_not_P)
  show "fst (sql_update i tn st sz now t) = Inr (map_option ?f (owned_row i tn t))"
    by (simp add: sql_update_def * filter_owned_row [OF assms(1)] split: option.splits)
  have "find (owned i tn) (upd_where (owned i tn) ?f t) = map_option ?f (find (owned i tn) t)"
    using keeps_coreD [OF keeps_core_rows(1)] by (intro find_upd_where_same) (simp_all add: owned_def)
  then show "owned_row i tn (snd (sql_update i tn st sz now t)) = map_option ?f (owned_row i tn t)"
    by (simp add: owned_row_def *)
qed

lemma sql_delete_eq:
  assumes "table_ok t"
  shows "fst (sql_delete i tn t) = Inr (if owned_row i tn t = None then 0 else 1)"
    and "owned_row i tn (snd (sql_delete i tn t)) = None"
  using assms
  by (simp_all add: sql_delete_def filter_owned_row owned_row_def find_filter_none split: option.splits)



section \<open>The order of the list queries\<close>

text \<open>
  \<^verbatim>\<open>ORDER BY created_at DESC\<close>: a rearrangement of the rows, newest first. Which of two rows with
  the same time comes first is the server's choice, and PostgreSQL documents that it takes \<^verbatim>\<open>LIMIT\<close>
  and \<^verbatim>\<open>OFFSET\<close> into account when it plans a query: the choice may differ from page to page.
  \<open>order_created_desc\<close> keeps the table's order.
\<close>

definition order_created_desc :: "table \<Rightarrow> table" where
  "order_created_desc xs = sort_key (\<lambda>b. - b_created_at b) xs"

locale planner =
  fixes ord :: "i64 \<Rightarrow> i64 \<Rightarrow> table \<Rightarrow> table"
  assumes ord_rows: "mset (ord l f xs) = mset xs"
    and ord_desc: "sorted_wrt (\<lambda>a b. b_created_at b \<le> b_created_at a) (ord l f xs)"
begin

lemma length_ord [simp]: "length (ord l f xs) = length xs"
  using ord_rows [of l f xs] by (rule mset_eq_length)

lemma set_ord [simp]: "set (ord l f xs) = set xs"
  using ord_rows [of l f xs] by (rule mset_eq_setD)

text \<open>Rows with distinct creation times leave the server no choice.\<close>

lemma ord_unique: "inj_on b_created_at (set xs) \<Longrightarrow> ord l f xs = order_created_desc xs"
  unfolding order_created_desc_def
  using ord_rows [of l f xs] ord_desc [of l f xs]
  by (intro sort_key_inj_key_eq [symmetric]) (auto simp: inj_on_def sorted_wrt_map)

lemma page_rows: "set (page lim off (ord l f xs)) \<subseteq> set xs"
  using set_take_subset set_drop_subset set_ord unfolding page_def by fast

lemma page_desc: "sorted_wrt (\<lambda>a b. b_created_at b \<le> b_created_at a) (page lim off (ord l f xs))"
  using ord_desc unfolding page_def by (intro sorted_wrt_take sorted_wrt_drop)

lemma length_page_ord:
  "0 \<le> sint off \<Longrightarrow> 0 \<le> sint lim \<Longrightarrow>
   int (length (page lim off (ord l f xs))) = min (sint lim) (max 0 (int (length xs) - sint off))"
  by (auto simp: page_def min_def max_def)

end

interpretation created_desc: planner "\<lambda>lim off. order_created_desc"
proof unfold_locales
  fix xs
  show "mset (order_created_desc xs) = mset xs" by (simp add: order_created_desc_def)
  have "sorted (map (\<lambda>b. - b_created_at b) (order_created_desc xs))"
    by (simp add: order_created_desc_def)
  then show "sorted_wrt (\<lambda>a b. b_created_at b \<le> b_created_at a) (order_created_desc xs)"
    by (simp add: sorted_wrt_map)
qed

text \<open>Pages of one size, one after the other, tile the list.\<close>

lemma pages_take:
  assumes "l < 2 ^ 63" and "n * l < 2 ^ 63"
  shows "concat (map (\<lambda>k. page (word_of_nat l) (word_of_nat (k * l)) xs) [0..<n]) = take (n * l) xs"
  using assms
proof (induction n)
  case (Suc n)
  have n: "n * l < 2 ^ 63" using Suc.prems by simp
  have "page (word_of_nat l) (word_of_nat (n * l)) xs = take l (drop (n * l) xs)"
    unfolding page_def using n Suc.prems(1) by (simp del: of_nat_mult)
  then show ?case
    using Suc.IH [OF Suc.prems(1) n] by (simp add: add.commute [of l] take_add del: of_nat_mult)
qed simp

lemma sql_page_Inr:
  "fst (sql_page ord tn st lim off t) = Inr xs \<Longrightarrow> xs = page lim off (ord lim off (filter (listed tn st) t))"
  by (auto simp: sql_page_def split: if_splits)

lemma sql_page_eq:
  "0 \<le> sint lim \<Longrightarrow> 0 \<le> sint off \<Longrightarrow> (case st of None \<Rightarrow> True | Some s \<Rightarrow> text_ok s) \<Longrightarrow>
   fst (sql_page ord tn st lim off t) = Inr (page lim off (ord lim off (filter (listed tn st) t)))"
  by (auto simp: sql_page_def split: option.splits)

lemma sql_count_Inr:
  "fst (sql_count tn st t) = Inr n \<Longrightarrow> n = word_of_nat (length (filter (listed tn st) t))"
  by (auto simp: sql_count_def split: if_splits)

end
