(* ===== verification/Uuid_Text.thy ===== *)
theory Uuid_Text
  imports Rust_Std
begin

text \<open>
  The text form of a UUID is a parameter of the model (the \<^verbatim>\<open>uuid\<close> crate): a printer and a
  parser with one law, that the parser reads back what the printer writes. This theory states the
  interface and provides the standard form (RFC 4122: 32 lower case hexadecimal digits in groups
  of 8, 4, 4, 4 and 12) as its instance, so that every property that rests on the law has an
  instance to run on.
\<close>

section \<open>The interface\<close>

record uuid_ops =
  uu_fmt :: "uuid \<Rightarrow> string"
  uu_parse :: "string \<Rightarrow> string + uuid"

locale uuid_text =
  fixes U :: uuid_ops
  assumes parse_fmt: "uu_parse U (uu_fmt U u) = Inr u"
begin

lemma fmt_inj: "uu_fmt U u = uu_fmt U v \<longleftrightarrow> u = v"
proof
  assume "uu_fmt U u = uu_fmt U v"
  then have "uu_parse U (uu_fmt U u) = uu_parse U (uu_fmt U v)" by simp
  then show "u = v" by (simp add: parse_fmt)
qed simp

text \<open>Keys made of a prefix and a UUID collide only for the same prefix and UUID.\<close>

lemma key_inj: "p @ uu_fmt U u = p @ uu_fmt U v \<longleftrightarrow> u = v"
  by (simp add: fmt_inj)

end

section \<open>Hexadecimal digits\<close>

definition hex_char :: "nat \<Rightarrow> char" where
  "hex_char d = char_of (if d < 10 then 48 + d else 87 + d)"

definition hex_val :: "char \<Rightarrow> nat option" where
  "hex_val c =
     (let n = (of_char c :: nat)
      in if 48 \<le> n \<and> n \<le> 57 then Some (n - 48)
         else if 97 \<le> n \<and> n \<le> 102 then Some (n - 87)
         else if 65 \<le> n \<and> n \<le> 70 then Some (n - 55)
         else None)"

definition hex_digits :: "nat \<Rightarrow> nat \<Rightarrow> nat list" where
  "hex_digits n v = map (\<lambda>k. v div 16 ^ k mod 16) (rev [0..<n])"

definition hex_value :: "nat list \<Rightarrow> nat" where
  "hex_value ds = foldl (\<lambda>a d. a * 16 + d) 0 ds"

lemma hex_val_char: "d < 16 \<Longrightarrow> hex_val (hex_char d) = Some d"
  by (auto simp: hex_val_def hex_char_def Let_def)

lemma foldl_hex: "foldl (\<lambda>a d. a * 16 + d) a ds = a * 16 ^ length ds + hex_value ds" for a :: nat
proof (induction ds arbitrary: a)
  case (Cons d ds)
  have "hex_value (d # ds) = d * 16 ^ length ds + hex_value ds"
    using Cons.IH [of d] by (simp add: hex_value_def)
  then show ?case using Cons.IH [of "a * 16 + d"] by (simp add: algebra_simps)
qed (simp add: hex_value_def)

lemma hex_value_Cons: "hex_value (d # ds) = d * 16 ^ length ds + hex_value ds"
  using foldl_hex [of d ds] by (simp add: hex_value_def)

lemma hex_digits_Suc: "hex_digits (Suc n) v = (v div 16 ^ n mod 16) # hex_digits n v"
  by (simp add: hex_digits_def)

lemma length_hex_digits [simp]: "length (hex_digits n v) = n"
  by (simp add: hex_digits_def)

lemma hex_value_digits: "hex_value (hex_digits n v) = v mod 16 ^ n"
proof (induction n)
  case (Suc n)
  have "hex_value (hex_digits (Suc n) v) = (v div 16 ^ n mod 16) * 16 ^ n + hex_value (hex_digits n v)"
    by (simp add: hex_digits_Suc hex_value_Cons)
  also have "\<dots> = v mod 16 ^ Suc n"
    using Suc mod_mult2_eq [of v "16 ^ n" 16] by (simp add: mult.commute)
  finally show ?case .
qed (simp add: hex_digits_def hex_value_def)

section \<open>The standard form\<close>

definition std_uuid_fmt :: "uuid \<Rightarrow> string" where
  "std_uuid_fmt u =
     (let ds = map hex_char (hex_digits 32 (unat u))
      in take 8 ds @ ''-'' @ take 4 (drop 8 ds) @ ''-'' @ take 4 (drop 12 ds) @ ''-''
         @ take 4 (drop 16 ds) @ ''-'' @ drop 20 ds)"

definition std_uuid_parse :: "string \<Rightarrow> string + uuid" where
  "std_uuid_parse s =
     (if length s \<noteq> 36 \<or> s ! 8 \<noteq> CHR ''-'' \<or> s ! 13 \<noteq> CHR ''-'' \<or> s ! 18 \<noteq> CHR ''-'' \<or> s ! 23 \<noteq> CHR ''-''
      then Inl ''invalid length or group''
      else
        (let ds = take 8 s @ take 4 (drop 9 s) @ take 4 (drop 14 s) @ take 4 (drop 19 s) @ drop 24 s
         in case those (map hex_val ds) of
              None \<Rightarrow> Inl ''invalid character''
            | Some vs \<Rightarrow> Inr (word_of_nat (hex_value vs))))"

definition std_uuid :: uuid_ops where
  "std_uuid = \<lparr> uu_fmt = std_uuid_fmt, uu_parse = std_uuid_parse \<rparr>"

lemma those_map_Some: "(\<And>x. x \<in> set xs \<Longrightarrow> f x = Some (g x)) \<Longrightarrow> those (map f xs) = Some (map g xs)"
  by (induction xs) auto

lemma groups_split:
  assumes "length ds = 32"
  defines "s \<equiv> take 8 ds @ ''-'' @ take 4 (drop 8 ds) @ ''-'' @ take 4 (drop 12 ds) @ ''-''
         @ take 4 (drop 16 ds) @ ''-'' @ drop 20 ds"
  shows "length s = 36" "s ! 8 = CHR ''-''" "s ! 13 = CHR ''-''" "s ! 18 = CHR ''-''" "s ! 23 = CHR ''-''"
    "take 8 s @ take 4 (drop 9 s) @ take 4 (drop 14 s) @ take 4 (drop 19 s) @ drop 24 s = ds"
proof -
  have e: "take 4 (drop n ds) @ drop (n + 4) ds = drop n ds" for n
    using append_take_drop_id [of 4 "drop n ds"] by (simp add: add.commute)
  obtain a b c d r where l: "length a = 8" "length b = 4" "length c = 4" "length d = 4" "length r = 12"
    and abc: "a = take 8 ds" "b = take 4 (drop 8 ds)" "c = take 4 (drop 12 ds)" "d = take 4 (drop 16 ds)"
      "r = drop 20 ds"
    using assms(1) by simp
  have "a @ b @ c @ d @ r = ds"
    using e [of 8] e [of 12] e [of 16] by (simp add: abc)
  moreover have "s = a @ ''-'' @ b @ ''-'' @ c @ ''-'' @ d @ ''-'' @ r"
    by (simp add: s_def abc)
  ultimately show "length s = 36" "s ! 8 = CHR ''-''" "s ! 13 = CHR ''-''" "s ! 18 = CHR ''-''"
    "s ! 23 = CHR ''-''"
    "take 8 s @ take 4 (drop 9 s) @ take 4 (drop 14 s) @ take 4 (drop 19 s) @ drop 24 s = ds"
    using l by (simp_all add: nth_append)
qed

lemma std_parse_fmt: "std_uuid_parse (std_uuid_fmt u) = Inr u"
proof -
  define ds where "ds = map hex_char (hex_digits 32 (unat u))"
  have len: "length ds = 32" by (simp add: ds_def hex_digits_def)
  have "those (map hex_val ds) = Some (hex_digits 32 (unat u))"
  proof -
    have "(hex_val \<circ> hex_char) d = Some d" if "d \<in> set (hex_digits 32 (unat u))" for d
      using that hex_val_char by (auto simp: hex_digits_def)
    then show ?thesis
      using those_map_Some [of "hex_digits 32 (unat u)" "hex_val \<circ> hex_char" "\<lambda>d. d"]
      by (simp add: ds_def)
  qed
  moreover have "unat u < 2 ^ LENGTH(128)" by (rule unsigned_less)
  then have "unat u mod 16 ^ 32 = unat u" by simp
  ultimately have v: "those (map hex_val ds) = Some (hex_digits 32 (unat u))"
    "word_of_nat (hex_value (hex_digits 32 (unat u))) = u"
    by (simp_all only: hex_value_digits word_of_nat_eq_iff) simp_all
  have fmt: "take 8 ds @ ''-'' @ take 4 (drop 8 ds) @ ''-'' @ take 4 (drop 12 ds) @ ''-''
      @ take 4 (drop 16 ds) @ ''-'' @ drop 20 ds = std_uuid_fmt u"
    by (simp only: std_uuid_fmt_def Let_def ds_def)
  note g = groups_split [OF len, unfolded fmt]
  show ?thesis
    unfolding std_uuid_parse_def Let_def g(6) v by (simp add: g(1-5) v(2))
qed

interpretation std: uuid_text std_uuid
  by unfold_locales (simp add: std_uuid_def std_parse_fmt)

end
