(* ===== verification/Cache_Layer.thy ===== *)
theory Cache_Layer
  imports Config Backup_Table Uuid_Text
begin

text \<open>
  \<^verbatim>\<open>crates/backup-service/src/cache.rs\<close>: the typed cache over Redis. The connection is optional
  and every Redis error is swallowed, so each operation is total. Redis itself (four commands on a
  server state \<^typ>\<open>'r\<close>) and the JSON text of its values (\<^typ>\<open>'j\<close>, two codecs) are parameters;
  \<^verbatim>\<open>redis_cache\<close> states the documented laws the cache relies on, \<^verbatim>\<open>backup_cache\<close> the contract the
  handlers rely on, and the sublocale relation says that the code turns the first into the second.
\<close>

section \<open>Redis and JSON as parameters\<close>

record ('r, 'j) redis_ops =
  rd_get :: "'r \<Rightarrow> string \<Rightarrow> redis_error + 'j"
  rd_set_ex :: "'r \<Rightarrow> string \<Rightarrow> 'j \<Rightarrow> u64 \<Rightarrow> (redis_error + unit) \<times> 'r"
  rd_del :: "'r \<Rightarrow> string \<Rightarrow> (redis_error + unit) \<times> 'r"
  rd_ping :: "'r \<Rightarrow> redis_error + string"

record ('a, 'j) codec =
  to_json :: "'a \<Rightarrow> string + 'j"
  of_json :: "'j \<Rightarrow> string + 'a"

record ('r, 'j) cache_libs =
  redis :: "('r, 'j) redis_ops"
  uuids :: uuid_ops
  row_json :: "(backup, 'j) codec"
  list_json :: "(backup list \<times> i64, 'j) codec"

section \<open>The cache layer\<close>

definition DEFAULT_CACHE_TTL_SECS :: u64 where
  "DEFAULT_CACHE_TTL_SECS = 300"

text \<open>
  \<^verbatim>\<open>CacheLayer::new\<close>: a bad URL and a failed connection both leave the cache without a connection.
  The layer keeps a reference to the shared configuration, read at every write for the TTL; the
  argument of \<open>cache_ttl\<close> is what that read yields, \<^const>\<open>None\<close> for the layer of \<^verbatim>\<open>noop()\<close>.
\<close>

definition cache_new :: "(string \<Rightarrow> redis_error + 'c) \<Rightarrow> ('c \<Rightarrow> redis_error + 'r) \<Rightarrow> app_config \<Rightarrow> 'r option" where
  "cache_new open_client connect config =
     (case open_client (redis_url config) of
        Inr client \<Rightarrow> (case connect client of Inr conn \<Rightarrow> Some conn | Inl e \<Rightarrow> None)
      | Inl e \<Rightarrow> None)"

definition cache_noop :: "'r option" where
  "cache_noop = None"

definition cache_ttl :: "app_config option \<Rightarrow> u64" where
  "cache_ttl config = (case config of None \<Rightarrow> DEFAULT_CACHE_TTL_SECS | Some c \<Rightarrow> cache_ttl_secs c)"

definition cache_ping :: "('r, 'j) cache_libs \<Rightarrow> 'r option \<Rightarrow> bool" where
  "cache_ping L conn = (case conn of None \<Rightarrow> False | Some r \<Rightarrow> is_ok (rd_ping (redis L) r))"

definition row_key :: "('r, 'j) cache_libs \<Rightarrow> uuid \<Rightarrow> string" where
  "row_key L i = ''backup:'' @ uu_fmt (uuids L) i"

definition list_key :: "('r, 'j) cache_libs \<Rightarrow> uuid \<Rightarrow> string" where
  "list_key L tn = ''tenant_backups:'' @ uu_fmt (uuids L) tn"

text \<open>\<^verbatim>\<open>Result::ok\<close>.\<close>

definition ok :: "'e + 'a \<Rightarrow> 'a option" where
  "ok r = (case r of Inl e \<Rightarrow> None | Inr x \<Rightarrow> Some x)"

definition cache_get_backup :: "('r, 'j) cache_libs \<Rightarrow> 'r option \<Rightarrow> uuid \<Rightarrow> backup option" where
  "cache_get_backup L conn i =
     (case conn of
        None \<Rightarrow> None
      | Some r \<Rightarrow> Option.bind (ok (rd_get (redis L) r (row_key L i))) (\<lambda>json. ok (of_json (row_json L) json)))"

definition cache_set_backup :: "('r, 'j) cache_libs \<Rightarrow> app_config option \<Rightarrow> 'r option \<Rightarrow> backup \<Rightarrow> 'r option" where
  "cache_set_backup L config conn b =
     (case conn of
        None \<Rightarrow> None
      | Some r \<Rightarrow>
          (case to_json (row_json L) b of
             Inr json \<Rightarrow> Some (snd (rd_set_ex (redis L) r (row_key L (b_id b)) json (cache_ttl config)))
           | Inl e \<Rightarrow> Some r))"

definition cache_invalidate_backup :: "('r, 'j) cache_libs \<Rightarrow> 'r option \<Rightarrow> uuid \<Rightarrow> 'r option" where
  "cache_invalidate_backup L conn i =
     (case conn of None \<Rightarrow> None | Some r \<Rightarrow> Some (snd (rd_del (redis L) r (row_key L i))))"

definition cache_get_tenant_backups :: "('r, 'j) cache_libs \<Rightarrow> 'r option \<Rightarrow> uuid \<Rightarrow> (backup list \<times> i64) option" where
  "cache_get_tenant_backups L conn tn =
     (case conn of
        None \<Rightarrow> None
      | Some r \<Rightarrow> Option.bind (ok (rd_get (redis L) r (list_key L tn))) (\<lambda>json. ok (of_json (list_json L) json)))"

definition cache_set_tenant_backups ::
    "('r, 'j) cache_libs \<Rightarrow> app_config option \<Rightarrow> 'r option \<Rightarrow> uuid \<Rightarrow> backup list \<Rightarrow> i64 \<Rightarrow> 'r option" where
  "cache_set_tenant_backups L config conn tn items tot =
     (case conn of
        None \<Rightarrow> None
      | Some r \<Rightarrow>
          (case to_json (list_json L) (items, tot) of
             Inr json \<Rightarrow> Some (snd (rd_set_ex (redis L) r (list_key L tn) json (cache_ttl config)))
           | Inl e \<Rightarrow> Some r))"

definition cache_invalidate_tenant_backups :: "('r, 'j) cache_libs \<Rightarrow> 'r option \<Rightarrow> uuid \<Rightarrow> 'r option" where
  "cache_invalidate_tenant_backups L conn tn =
     (case conn of None \<Rightarrow> None | Some r \<Rightarrow> Some (snd (rd_del (redis L) r (list_key L tn))))"

lemma row_key_neq_list_key [simp]: "row_key L i \<noteq> list_key L tn" "list_key L tn \<noteq> row_key L i"
  by (simp_all add: row_key_def list_key_def)

section \<open>What the cache relies on\<close>

text \<open>
  The documented behaviour of the Redis commands, in terms of what a \<^verbatim>\<open>GET\<close> could still answer
  (\<open>contents\<close>). Entries may vanish at any time (expiry, eviction). A command that fails may or may
  not have taken effect. \<open>settle\<close> is the passage of time between two commands. The JSON codecs
  read back what they wrote.
\<close>

locale redis_cache =
  fixes L :: "('r, 'j) cache_libs"
    and contents :: "'r \<Rightarrow> string \<Rightarrow> 'j option"
    and settle :: "'r \<Rightarrow> 'r"
  assumes get_contents: "rd_get (redis L) r k = Inr v \<Longrightarrow> contents r k = Some v"
    and set_other: "k' \<noteq> k \<Longrightarrow> contents (snd (rd_set_ex (redis L) r k v ttl)) k' \<in> {None, contents r k'}"
    and set_self: "contents (snd (rd_set_ex (redis L) r k v ttl)) k \<in> {None, Some v, contents r k}"
    and del_other: "contents (snd (rd_del (redis L) r k)) k' \<in> {None, contents r k'}"
    and del_self: "fst (rd_del (redis L) r k) = Inr () \<Longrightarrow> contents (snd (rd_del (redis L) r k)) k = None"
    and settle_contents: "contents (settle r) k \<in> {None, contents r k}"
    and uuid_roundtrip: "uu_parse (uuids L) (uu_fmt (uuids L) u) = Inr u"
    and row_roundtrip: "to_json (row_json L) b = Inr j \<Longrightarrow> of_json (row_json L) j = Inr b"
    and list_roundtrip: "to_json (list_json L) p = Inr j \<Longrightarrow> of_json (list_json L) j = Inr p"

text \<open>A deletion that the server acknowledges.\<close>

definition del_ok :: "('r, 'j) cache_libs \<Rightarrow> 'r option \<Rightarrow> string \<Rightarrow> bool" where
  "del_ok L conn k = (case conn of None \<Rightarrow> True | Some r \<Rightarrow> fst (rd_del (redis L) r k) = Inr ())"

text \<open>What the cache may answer, now or later, for a row and for a tenant's list.\<close>

definition may_row :: "('r, 'j) cache_libs \<Rightarrow> ('r \<Rightarrow> string \<Rightarrow> 'j option) \<Rightarrow> 'r option \<Rightarrow> uuid \<Rightarrow> backup \<Rightarrow> bool" where
  "may_row L contents conn i b =
     (\<exists>r j. conn = Some r \<and> contents r (row_key L i) = Some j \<and> of_json (row_json L) j = Inr b)"

definition may_list :: "('r, 'j) cache_libs \<Rightarrow> ('r \<Rightarrow> string \<Rightarrow> 'j option) \<Rightarrow> 'r option \<Rightarrow> uuid \<Rightarrow> backup list \<times> i64 \<Rightarrow> bool" where
  "may_list L contents conn tn p =
     (\<exists>r j. conn = Some r \<and> contents r (list_key L tn) = Some j \<and> of_json (list_json L) j = Inr p)"


section \<open>What the cache promises\<close>

text \<open>
  The contract towards the handlers: an answer was put there, dropping an entry that the server
  acknowledges removes it, and rows and lists do not disturb each other. \<open>coherent may D\<close> says that
  all a cache may answer is what the database \<open>D\<close> holds.
\<close>

definition coherent :: "('k \<Rightarrow> 'v \<Rightarrow> bool) \<Rightarrow> ('k \<Rightarrow> 'v option) \<Rightarrow> bool" where
  "coherent may D = (\<forall>k v. may k v \<longrightarrow> D k = Some v)"

lemma coherent_mono: "coherent may D \<Longrightarrow> (\<And>k v. may' k v \<Longrightarrow> may k v) \<Longrightarrow> coherent may' D"
  by (auto simp: coherent_def)

lemma coherent_put:
  "coherent may D \<Longrightarrow> D k = Some v \<Longrightarrow> (\<And>k' v'. may' k' v' \<Longrightarrow> may k' v' \<or> k' = k \<and> v' = v) \<Longrightarrow>
   coherent may' D"
  unfolding coherent_def by blast

lemma coherent_drop:
  "coherent may D \<Longrightarrow> (\<And>k'. k' \<noteq> k \<Longrightarrow> D' k' = D k') \<Longrightarrow> (\<And>v. \<not> may' k v) \<Longrightarrow>
   (\<And>k' v'. may' k' v' \<Longrightarrow> may k' v') \<Longrightarrow> coherent may' D'"
  unfolding coherent_def by metis

locale backup_cache =
  fixes get_row :: "'c \<Rightarrow> uuid \<Rightarrow> backup option"
    and put_row :: "'c \<Rightarrow> backup \<Rightarrow> 'c"
    and drop_row :: "'c \<Rightarrow> uuid \<Rightarrow> 'c"
    and get_list :: "'c \<Rightarrow> uuid \<Rightarrow> (backup list \<times> i64) option"
    and put_list :: "'c \<Rightarrow> uuid \<Rightarrow> backup list \<Rightarrow> i64 \<Rightarrow> 'c"
    and drop_list :: "'c \<Rightarrow> uuid \<Rightarrow> 'c"
    and mayr :: "'c \<Rightarrow> uuid \<Rightarrow> backup \<Rightarrow> bool"
    and mayl :: "'c \<Rightarrow> uuid \<Rightarrow> backup list \<times> i64 \<Rightarrow> bool"
    and row_acked :: "'c \<Rightarrow> uuid \<Rightarrow> bool"
    and list_acked :: "'c \<Rightarrow> uuid \<Rightarrow> bool"
  assumes get_row_may: "get_row c i = Some b \<Longrightarrow> mayr c i b"
    and put_row_may: "mayr (put_row c b) i b' \<Longrightarrow> mayr c i b' \<or> i = b_id b \<and> b' = b"
    and put_row_lists: "mayl (put_row c b) tn p \<Longrightarrow> mayl c tn p"
    and drop_row_may: "mayr (drop_row c i) j b \<Longrightarrow> mayr c j b"
    and drop_row_gone: "row_acked c i \<Longrightarrow> \<not> mayr (drop_row c i) i b"
    and drop_row_lists: "mayl (drop_row c i) tn p \<Longrightarrow> mayl c tn p"
    and get_list_may: "get_list c tn = Some p \<Longrightarrow> mayl c tn p"
    and put_list_may: "mayl (put_list c tn xs n) tn' p \<Longrightarrow> mayl c tn' p \<or> tn' = tn \<and> p = (xs, n)"
    and put_list_rows: "mayr (put_list c tn xs n) i b \<Longrightarrow> mayr c i b"
    and drop_list_may: "mayl (drop_list c tn) tn' p \<Longrightarrow> mayl c tn' p"
    and drop_list_gone: "list_acked c tn \<Longrightarrow> \<not> mayl (drop_list c tn) tn p"
    and drop_list_rows: "mayr (drop_list c tn) i b \<Longrightarrow> mayr c i b"
begin

lemma hit_is_row: "coherent (mayr c) D \<Longrightarrow> get_row c i = Some b \<Longrightarrow> D i = Some b"
  using get_row_may unfolding coherent_def by blast

lemma hit_is_list: "coherent (mayl c) D \<Longrightarrow> get_list c tn = Some p \<Longrightarrow> D tn = Some p"
  using get_list_may unfolding coherent_def by blast

lemma rows_after_fill: "coherent (mayr c) D \<Longrightarrow> D (b_id b) = Some b \<Longrightarrow> coherent (mayr (put_row c b)) D"
  using put_row_may by (blast intro: coherent_put)

lemma lists_after_fill: "coherent (mayl c) D \<Longrightarrow> D tn = Some (xs, n) \<Longrightarrow> coherent (mayl (put_list c tn xs n)) D"
  using put_list_may by (blast intro: coherent_put)

lemma misses_after_drop: "row_acked c i \<Longrightarrow> get_row (drop_list (drop_row c i) tn) i = None"
  using drop_row_gone drop_list_rows get_row_may by (metis option.exhaust)

text \<open>After a write to one row, dropping its entry and its tenant's list restores coherence.\<close>

lemma rows_after_drop:
  assumes "coherent (mayr c) D" and "\<And>j. j \<noteq> i \<Longrightarrow> D' j = D j" and "row_acked c i"
  shows "coherent (mayr (drop_list (drop_row c i) tn)) D'"
proof -
  have "coherent (mayr (drop_row c i)) D'"
    using assms(1,2) drop_row_gone [OF assms(3)] drop_row_may by (rule coherent_drop)
  then show ?thesis using drop_list_rows by (rule coherent_mono)
qed

lemma lists_after_drop:
  assumes "coherent (mayl c) D" and "\<And>tn'. tn' \<noteq> tn \<Longrightarrow> D' tn' = D tn'"
    and "list_acked (drop_row c i) tn"
  shows "coherent (mayl (drop_list (drop_row c i) tn)) D'"
proof -
  have "coherent (mayl (drop_row c i)) D"
    using assms(1) drop_row_lists by (rule coherent_mono)
  then show ?thesis
    using assms(2) drop_list_gone [OF assms(3)] drop_list_may by (rule coherent_drop)
qed

lemma lists_after_drop_list:
  "coherent (mayl c) D \<Longrightarrow> (\<And>tn'. tn' \<noteq> tn \<Longrightarrow> D' tn' = D tn') \<Longrightarrow> list_acked c tn \<Longrightarrow>
   coherent (mayl (drop_list c tn)) D'"
  using drop_list_gone drop_list_may by (blast intro: coherent_drop)

lemma rows_after_drop_list: "coherent (mayr c) D \<Longrightarrow> coherent (mayr (drop_list c tn)) D"
  using drop_list_rows by (blast intro: coherent_mono)

lemma rows_after_list_fill: "coherent (mayr c) D \<Longrightarrow> coherent (mayr (put_list c tn xs n)) D"
  using put_list_rows by (blast intro: coherent_mono)

lemma lists_after_row_fill: "coherent (mayl c) D \<Longrightarrow> coherent (mayl (put_row c b)) D"
  using put_row_lists by (blast intro: coherent_mono)

end

section \<open>The code turns Redis into a backup cache\<close>

context redis_cache begin

lemma row_key_inj [simp]: "row_key L i = row_key L j \<longleftrightarrow> i = j"
  using uuid_roundtrip by (auto simp: row_key_def) (metis sum.inject(2))

lemma list_key_inj [simp]: "list_key L i = list_key L j \<longleftrightarrow> i = j"
  using uuid_roundtrip by (auto simp: list_key_def) (metis sum.inject(2))

lemma set_contents:
  "contents (snd (rd_set_ex (redis L) r k v ttl)) k' = Some w \<Longrightarrow> contents r k' = Some w \<or> k' = k \<and> w = v"
  using set_other [of k' k r v ttl] set_self [of r k v ttl] by (cases "k' = k") auto

lemma del_contents: "contents (snd (rd_del (redis L) r k)) k' = Some w \<Longrightarrow> contents r k' = Some w"
  using del_other [of r k k'] by auto

lemma get_backup_may: "cache_get_backup L c i = Some b \<Longrightarrow> may_row L contents c i b"
  by (auto simp: cache_get_backup_def may_row_def ok_def bind_eq_Some_conv dest!: get_contents
      split: option.splits sum.splits)

lemma get_tenant_may: "cache_get_tenant_backups L c tn = Some p \<Longrightarrow> may_list L contents c tn p"
  by (auto simp: cache_get_tenant_backups_def may_list_def ok_def bind_eq_Some_conv dest!: get_contents
      split: option.splits sum.splits)

lemma set_backup_may:
  "may_row L contents (cache_set_backup L cfg c b) i b' \<Longrightarrow> may_row L contents c i b' \<or> i = b_id b \<and> b' = b"
  "may_list L contents (cache_set_backup L cfg c b) tn p \<Longrightarrow> may_list L contents c tn p"
  by (auto simp: cache_set_backup_def may_row_def may_list_def dest!: set_contents row_roundtrip
      split: option.splits sum.splits)

lemma set_tenant_may:
  "may_list L contents (cache_set_tenant_backups L cfg c tn xs n) tn' p \<Longrightarrow>
     may_list L contents c tn' p \<or> tn' = tn \<and> p = (xs, n)"
  "may_row L contents (cache_set_tenant_backups L cfg c tn xs n) i b \<Longrightarrow> may_row L contents c i b"
  by (auto simp: cache_set_tenant_backups_def may_row_def may_list_def dest!: set_contents list_roundtrip
      split: option.splits sum.splits)

lemma invalidate_may:
  "may_row L contents (cache_invalidate_backup L c i) j b \<Longrightarrow> may_row L contents c j b"
  "may_list L contents (cache_invalidate_backup L c i) tn p \<Longrightarrow> may_list L contents c tn p"
  "may_row L contents (cache_invalidate_tenant_backups L c tn) j b \<Longrightarrow> may_row L contents c j b"
  "may_list L contents (cache_invalidate_tenant_backups L c tn) tn' p \<Longrightarrow> may_list L contents c tn' p"
  by (auto simp: cache_invalidate_backup_def cache_invalidate_tenant_backups_def may_row_def may_list_def
      dest!: del_contents split: option.splits)

lemma invalidate_gone:
  "del_ok L c (row_key L i) \<Longrightarrow> \<not> may_row L contents (cache_invalidate_backup L c i) i b"
  "del_ok L c (list_key L tn) \<Longrightarrow> \<not> may_list L contents (cache_invalidate_tenant_backups L c tn) tn p"
  using del_self
  by (auto simp: cache_invalidate_backup_def cache_invalidate_tenant_backups_def may_row_def may_list_def
      del_ok_def split: option.splits)

end

sublocale redis_cache \<subseteq> cache: backup_cache
  "cache_get_backup L" "cache_set_backup L cfg" "cache_invalidate_backup L"
  "cache_get_tenant_backups L" "cache_set_tenant_backups L cfg" "cache_invalidate_tenant_backups L"
  "may_row L contents" "may_list L contents"
  "\<lambda>c i. del_ok L c (row_key L i)" "\<lambda>c tn. del_ok L c (list_key L tn)" for cfg
  by unfold_locales
    (auto dest: get_backup_may get_tenant_may set_backup_may set_tenant_may invalidate_may invalidate_gone)


context redis_cache begin

lemmas cached_row_is_row = cache.hit_is_row
lemmas cached_list_is_list = cache.hit_is_list
lemmas dropped_row_misses = cache.misses_after_drop
lemmas fresh_rows_fill = cache.rows_after_fill
lemmas fresh_lists_fill = cache.lists_after_fill
lemmas fresh_rows_drop = cache.rows_after_drop
lemmas fresh_lists_drop = cache.lists_after_drop
lemmas fresh_lists_drop_list = cache.lists_after_drop_list
lemmas fresh_rows_drop_list = cache.rows_after_drop_list
lemmas fresh_rows_list_fill = cache.rows_after_list_fill
lemmas fresh_lists_row_fill = cache.lists_after_row_fill

end

section \<open>A reference server\<close>

text \<open>
  The instance the properties are run on: a server that holds values with their deadlines under a
  clock in seconds, refuses a zero expiry as Redis does, and answers until the deadline; JSON text
  is kept as the document it denotes, and UUIDs have their standard text form.
\<close>

datatype doc = RowDoc backup | ListDoc "backup list" i64

record 'j mem_store =
  ms_now :: nat
  ms_entries :: "string \<Rightarrow> ('j \<times> nat) option"

definition mem_contents :: "'j mem_store \<Rightarrow> string \<Rightarrow> 'j option" where
  "mem_contents r k =
     (case ms_entries r k of None \<Rightarrow> None | Some (v, deadline) \<Rightarrow> if ms_now r < deadline then Some v else None)"

definition mem_redis :: "('j mem_store, 'j) redis_ops" where
  "mem_redis =
     \<lparr> rd_get = (\<lambda>r k. case mem_contents r k of None \<Rightarrow> Inl (RedisError ''nil'') | Some v \<Rightarrow> Inr v),
       rd_set_ex = (\<lambda>r k v ttl.
         if ttl = 0 then (Inl (RedisError ''invalid expire time''), r)
         else (Inr (), r\<lparr> ms_entries := (ms_entries r)(k \<mapsto> (v, ms_now r + unat ttl)) \<rparr>)),
       rd_del = (\<lambda>r k. (Inr (), r\<lparr> ms_entries := (ms_entries r)(k := None) \<rparr>)),
       rd_ping = (\<lambda>r. Inr ''PONG'') \<rparr>"

definition mem_tick :: "'j mem_store \<Rightarrow> 'j mem_store" where
  "mem_tick r = r\<lparr> ms_now := ms_now r + 1 \<rparr>"

definition empty_store :: "'j mem_store" where
  "empty_store = \<lparr> ms_now = 0, ms_entries = Map.empty \<rparr>"

definition mem_libs :: "(doc mem_store, doc) cache_libs" where
  "mem_libs =
     \<lparr> redis = mem_redis,
       uuids = std_uuid,
       row_json = \<lparr> to_json = (\<lambda>b. Inr (RowDoc b)),
                    of_json = (\<lambda>d. case d of RowDoc b \<Rightarrow> Inr b | ListDoc xs n \<Rightarrow> Inl ''invalid type'') \<rparr>,
       list_json = \<lparr> to_json = (\<lambda>(xs, n). Inr (ListDoc xs n)),
                     of_json = (\<lambda>d. case d of ListDoc xs n \<Rightarrow> Inr (xs, n) | RowDoc b \<Rightarrow> Inl ''invalid type'') \<rparr> \<rparr>"

lemma mem_libs_sel [simp]:
  "redis mem_libs = mem_redis" "uuids mem_libs = std_uuid"
  "to_json (row_json mem_libs) b = Inr (RowDoc b)" "of_json (row_json mem_libs) (RowDoc b) = Inr b"
  "to_json (list_json mem_libs) (xs, n) = Inr (ListDoc xs n)"
  "of_json (list_json mem_libs) (ListDoc xs n) = Inr (xs, n)"
  by (simp_all add: mem_libs_def)

lemma mem_ops [simp]:
  "rd_get mem_redis r k = (case mem_contents r k of None \<Rightarrow> Inl (RedisError ''nil'') | Some v \<Rightarrow> Inr v)"
  "ttl \<noteq> 0 \<Longrightarrow> rd_set_ex mem_redis r k v ttl =
     (Inr (), r\<lparr> ms_entries := (ms_entries r)(k \<mapsto> (v, ms_now r + unat ttl)) \<rparr>)"
  "rd_set_ex mem_redis r k v 0 = (Inl (RedisError ''invalid expire time''), r)"
  "rd_del mem_redis r k = (Inr (), r\<lparr> ms_entries := (ms_entries r)(k := None) \<rparr>)"
  "rd_ping mem_redis r = Inr ''PONG''"
  by (simp_all add: mem_redis_def)

lemma del_ok_mem [simp]: "del_ok mem_libs conn k"
  by (simp add: del_ok_def split: option.splits)

lemma mem_set_contents:
  "mem_contents (snd (rd_set_ex mem_redis r k v ttl)) k' =
     (if k' = k \<and> ttl \<noteq> 0 then Some v else mem_contents r k')"
  by (cases "ttl = 0") (auto simp: mem_contents_def unat_gt_0 split: option.splits prod.splits)

interpretation mem: redis_cache mem_libs mem_contents mem_tick
proof unfold_locales
  fix r :: "doc mem_store" and k k' :: string and v :: doc and ttl :: u64
  show "mem_contents (mem_tick r) k \<in> {None, mem_contents r k}"
    by (auto simp: mem_contents_def mem_tick_def split: option.splits)
  show "mem_contents (snd (rd_del (redis mem_libs) r k)) k' \<in> {None, mem_contents r k'}"
    by (auto simp: mem_contents_def split: option.splits prod.splits)
  show "k' \<noteq> k \<Longrightarrow> mem_contents (snd (rd_set_ex (redis mem_libs) r k v ttl)) k' \<in> {None, mem_contents r k'}"
    by (simp add: mem_set_contents)
  show "mem_contents (snd (rd_set_ex (redis mem_libs) r k v ttl)) k \<in> {None, Some v, mem_contents r k}"
    by (simp add: mem_set_contents)
  show "uu_parse (uuids mem_libs) (uu_fmt (uuids mem_libs) u) = Inr u" for u
    by (simp add: std.parse_fmt)
qed (auto simp: mem_libs_def mem_contents_def split: option.splits if_splits prod.splits)

end
