(* ===== verification/Http.thy ===== *)
theory Http
  imports Errors
begin

text \<open>
  The responses the service sends: a status code, headers and one of the JSON bodies the handlers
  and middleware build, and the rendering of an application error as such a response.
\<close>

record login_response =
  lg_token :: string
  lg_token_type :: string
  lg_expires_in :: u64

datatype 'f http_body =
    BackupBody "'f backup_response"
  | ListBody "'f backup_response list_response"
  | LoginBody login_response
  | EnqueuedBody (eb_message: string) (eb_backup_id: uuid)
  | ErrorBody (err_error: string) (err_status: nat)
  | RateLimitBody (rb_error: string) (rb_status: nat) (rb_retry_after_secs: u64)
  | HealthBody (hb_status: string)
  | ReadyBody (yb_status: string) (yb_database: bool) (yb_redis: bool)
  | TextBody string
  | NoBody

record 'f http_reply =
  rp_code :: nat
  rp_headers :: "string \<Rightarrow> string option"
  rp_body :: "'f http_body"

definition reply :: "nat \<Rightarrow> 'f http_body \<Rightarrow> 'f http_reply" where
  "reply code body = \<lparr> rp_code = code, rp_headers = Map.empty, rp_body = body \<rparr>"

definition error_reply :: "app_error \<Rightarrow> 'f http_reply" where
  "error_reply e = (let r = into_response e in reply (er_code r) (ErrorBody (er_error r) (er_status r)))"

lemma reply_sel [simp]: "rp_code (reply c b) = c" "rp_body (reply c b) = b" "rp_headers (reply c b) = Map.empty"
  by (simp_all add: reply_def)

lemma error_reply_code [simp]: "rp_code (error_reply e) = er_code (into_response e)"
  by (simp add: error_reply_def Let_def)

lemma error_reply_not_ok: "400 \<le> rp_code (error_reply e)"
  using into_response_codes [of e] by auto

end
