(* ===== verification/Rate_Limit.thy ===== *)
theory Rate_Limit
  imports Config Http
begin

text \<open>
  \<^verbatim>\<open>crates/backup-service/src/middleware/rate_limit.rs\<close>: the in-memory limiter, one counter and
  window start per tenant, and the middleware around the protected handlers. Instants and windows
  are in nanoseconds; counters are 64 bit words. The limiter behind its mutex is a step function,
  run over the sequence of requests in the order they take the lock.
\<close>

section \<open>The limiter\<close>

type_synonym counters = "uuid \<Rightarrow> (u64 \<times> nanos) option"

record rate_limit_info =
  ri_limit :: u64
  ri_remaining :: u64
  ri_reset_secs :: u64

text \<open>\<^verbatim>\<open>Duration::from_secs\<close>; \<^verbatim>\<open>Instant::duration_since\<close> saturates at zero, as \<^typ>\<open>nat\<close> subtraction does.\<close>

definition window :: "rate_limit_config \<Rightarrow> nanos" where
  "window config = unat (window_secs config) * 10 ^ 9"

definition check_and_increment ::
    "rate_limit_config \<Rightarrow> uuid \<Rightarrow> nanos \<Rightarrow> counters \<Rightarrow> (unit + rate_limit_info) \<times> counters" where
  "check_and_increment config tenant now counters =
     (let entry = (case counters tenant of None \<Rightarrow> (0, now) | Some e \<Rightarrow> e);
          entry = (if window config \<le> now - snd entry then (0, now) else entry);
          n = fst entry + 1;
          counters' = counters(tenant \<mapsto> (n, snd entry));
          remaining = saturating_sub (max_requests config) n
      in if max_requests config < n then (Inl (), counters')
         else (Inr \<lparr> ri_limit = max_requests config, ri_remaining = remaining,
                     ri_reset_secs = window_secs config \<rparr>, counters'))"

section \<open>The middleware\<close>

text \<open>
  The rest of the stack is a state transformer \<open>nxt\<close> on the service's remaining state; it answers
  \<^const>\<open>None\<close> when the handler panics and the connection is dropped. Without claims (a public
  route) the request is passed on uncounted.
\<close>

definition with_rate_headers :: "rate_limit_info \<Rightarrow> 'f http_reply \<Rightarrow> 'f http_reply" where
  "with_rate_headers info response =
     response\<lparr> rp_headers := (rp_headers response)
       (''X-RateLimit-Limit'' \<mapsto> show_u64 (ri_limit info),
        ''X-RateLimit-Remaining'' \<mapsto> show_u64 (ri_remaining info),
        ''X-RateLimit-Reset'' \<mapsto> show_u64 (ri_reset_secs info)) \<rparr>"

definition too_many_requests :: "rate_limit_config \<Rightarrow> 'f http_reply" where
  "too_many_requests config =
     \<lparr> rp_code = 429,
       rp_headers = [''Retry-After'' \<mapsto> show_u64 (window_secs config),
                     ''X-RateLimit-Limit'' \<mapsto> show_u64 (max_requests config),
                     ''X-RateLimit-Remaining'' \<mapsto> ''0''],
       rp_body = RateLimitBody ''rate limit exceeded'' 429 (window_secs config) \<rparr>"

definition rate_limit_middleware ::
    "rate_limit_config \<Rightarrow> claims option \<Rightarrow> nanos \<Rightarrow> ('s \<Rightarrow> 'f http_reply option \<times> 's) \<Rightarrow> counters \<times> 's \<Rightarrow>
     'f http_reply option \<times> counters \<times> 's" where
  "rate_limit_middleware config claims now nxt st =
     (case map_option cl_tenant_id claims of
        None \<Rightarrow> (let (response, s') = nxt (snd st) in (response, fst st, s'))
      | Some tenant_id \<Rightarrow>
          (case check_and_increment config tenant_id now (fst st) of
             (Inr info, counters') \<Rightarrow>
               (let (response, s') = nxt (snd st)
                in (map_option (with_rate_headers info) response, counters', s'))
           | (Inl _, counters') \<Rightarrow> (Some (too_many_requests config), counters', snd st)))"

section \<open>Per-tenant steps\<close>

text \<open>
  Running a step function keyed by a tenant over a sequence of requests. The contract says that a
  step reads and writes its own key only; then what a tenant sees does not depend on the others.
\<close>

fun keyed_run :: "('k \<Rightarrow> 'a \<Rightarrow> ('k \<Rightarrow> 's option) \<Rightarrow> 'r \<times> ('k \<Rightarrow> 's option)) \<Rightarrow> ('k \<times> 'a) list \<Rightarrow>
    ('k \<Rightarrow> 's option) \<Rightarrow> ('k \<times> 'a \<times> 'r) list \<times> ('k \<Rightarrow> 's option)" where
  "keyed_run step [] m = ([], m)"
| "keyed_run step ((k, a) # rs) m =
     (let (r, m') = step k a m; (out, m'') = keyed_run step rs m' in ((k, a, r) # out, m''))"

locale keyed_step =
  fixes step :: "'k \<Rightarrow> 'a \<Rightarrow> ('k \<Rightarrow> 's option) \<Rightarrow> 'r \<times> ('k \<Rightarrow> 's option)"
  assumes own_result: "m k = m' k \<Longrightarrow> fst (step k a m) = fst (step k a m')"
    and own_state: "m k = m' k \<Longrightarrow> snd (step k a m) k = snd (step k a m') k"
    and other_state: "k' \<noteq> k \<Longrightarrow> snd (step k a m) k' = m k'"
begin

lemma run_project:
  "m k = m' k \<Longrightarrow>
   filter (\<lambda>(k', _). k' = k) (fst (keyed_run step rs m)) =
     fst (keyed_run step (filter (\<lambda>(k', _). k' = k) rs) m') \<and>
   snd (keyed_run step rs m) k = snd (keyed_run step (filter (\<lambda>(k', _). k' = k) rs) m') k"
proof (induction rs arbitrary: m m')
  case (Cons r rs)
  obtain k0 a where r: "r = (k0, a)" by (cases r)
  show ?case
  proof (cases "k0 = k")
    case True
    have "snd (step k a m) k = snd (step k a m') k" using Cons.prems by (rule own_state)
    with Cons.IH [of "snd (step k a m)" "snd (step k a m')"] own_result [of m k m' a] Cons.prems True
    show ?thesis by (auto simp: r split: prod.splits)
  next
    case False
    then have "snd (step k0 a m) k = m' k" using other_state [of k k0 a m] Cons.prems by simp
    with Cons.IH [of "snd (step k0 a m)" m'] False show ?thesis
      by (auto simp: r split: prod.splits)
  qed
qed simp

end

lemma keyed_run_Cons:
  "fst (keyed_run step ((k, a) # rs) m) = (k, a, fst (step k a m)) # fst (keyed_run step rs (snd (step k a m)))"
  "snd (keyed_run step ((k, a) # rs) m) = snd (keyed_run step rs (snd (step k a m)))"
  by (simp_all split: prod.splits)

lemma length_keyed_run: "length (fst (keyed_run step rs m)) = length rs"
  by (induction step rs m rule: keyed_run.induct) (auto split: prod.splits)

lemma keyed_run_append:
  "keyed_run step (xs @ ys) m =
     (let (o1, m1) = keyed_run step xs m; (o2, m2) = keyed_run step ys m1 in (o1 @ o2, m2))"
  by (induction step xs m rule: keyed_run.induct) (auto split: prod.splits)

interpretation limiter: keyed_step "check_and_increment config" for config
  by unfold_locales (auto simp: check_and_increment_def Let_def)


section \<open>The abstract limiter\<close>

text \<open>
  A fixed window per tenant with an unbounded counter: the first request opens a window, requests
  inside it are admitted up to the limit, a request after its end opens the next one.
\<close>

definition spec_step :: "nat \<Rightarrow> nat \<Rightarrow> nanos \<Rightarrow> (nat \<times> nanos) option \<Rightarrow> bool \<times> (nat \<times> nanos)" where
  "spec_step mx w now e =
     (case e of
        None \<Rightarrow> (1 \<le> mx, (1, now))
      | Some (n, s) \<Rightarrow> if w \<le> now - s then (1 \<le> mx, (1, now)) else (n + 1 \<le> mx, (n + 1, s)))"

fun spec_run :: "nat \<Rightarrow> nat \<Rightarrow> (nat \<times> nanos) option \<Rightarrow> nanos list \<Rightarrow> (nanos \<times> bool) list" where
  "spec_run mx w e [] = []"
| "spec_run mx w e (t # ts) =
     (t, fst (spec_step mx w t e)) # spec_run mx w (Some (snd (spec_step mx w t e))) ts"

definition abs_entry :: "(u64 \<times> nanos) option \<Rightarrow> (nat \<times> nanos) option" where
  "abs_entry = map_option (\<lambda>(n, s). (unat n, s))"

definition entry_count :: "(u64 \<times> nanos) option \<Rightarrow> nat" where
  "entry_count e = (case e of None \<Rightarrow> 0 | Some (n, s) \<Rightarrow> unat n)"

text \<open>The times and outcomes of one tenant's requests in a run.\<close>

definition times_of :: "uuid \<Rightarrow> (uuid \<times> nanos) list \<Rightarrow> nanos list" where
  "times_of T rs = map snd (filter (\<lambda>(k, _). k = T) rs)"

definition outcomes :: "rate_limit_config \<Rightarrow> uuid \<Rightarrow> (uuid \<times> nanos) list \<Rightarrow> counters \<Rightarrow> (nanos \<times> bool) list" where
  "outcomes config T rs m =
     map (\<lambda>(k, t, r). (t, is_ok r)) (filter (\<lambda>(k, _). k = T) (fst (keyed_run (check_and_increment config) rs m)))"

lemma unat_plus_1: "unat n + 1 < 2 ^ 64 \<Longrightarrow> unat (n + 1 :: u64) = unat n + 1"
  by (simp add: unat_word_ariths)

lemma check_refines:
  assumes "entry_count (m T) + 1 < 2 ^ 64"
  shows "is_ok (fst (check_and_increment config T now m)) =
      fst (spec_step (unat (max_requests config)) (window config) now (abs_entry (m T)))"
    and "abs_entry (snd (check_and_increment config T now m) T) =
      Some (snd (spec_step (unat (max_requests config)) (window config) now (abs_entry (m T))))"
    and "entry_count (snd (check_and_increment config T now m) T) \<le> entry_count (m T) + 1"
  using assms
  by (auto simp: check_and_increment_def spec_step_def abs_entry_def entry_count_def Let_def
      unat_plus_1 word_less_nat_alt not_less split: option.splits)

text \<open>A mixed run shows each tenant exactly the abstract limiter on its own requests.\<close>

lemma outcomes_refine:
  "length (times_of T rs) + entry_count (m T) < 2 ^ 64 \<Longrightarrow>
   outcomes config T rs m =
     spec_run (unat (max_requests config)) (window config) (abs_entry (m T)) (times_of T rs)"
proof (induction rs arbitrary: m)
  case (Cons r rs)
  obtain k t where r: "r = (k, t)" by (cases r)
  let ?m' = "snd (check_and_increment config k t m)"
  show ?case
  proof (cases "k = T")
    case True
    then have c: "entry_count (m T) + 1 < 2 ^ 64"
      using Cons.prems by (simp add: times_of_def r)
    note step = check_refines [of m T config t, OF c]
    have "length (times_of T rs) + entry_count (?m' T) < 2 ^ 64"
      using Cons.prems step(3) True by (simp add: times_of_def r)
    from Cons.IH [of ?m'] this step(1,2) True show ?thesis
      by (simp add: outcomes_def times_of_def r keyed_run_Cons del: keyed_run.simps)
  next
    case False
    then have T: "?m' T = m T" by (intro limiter.other_state) simp
    have "length (times_of T rs) + entry_count (?m' T) < 2 ^ 64"
      using Cons.prems False by (simp add: times_of_def r T)
    from Cons.IH [of ?m'] this False show ?thesis
      by (simp add: outcomes_def times_of_def r T keyed_run_Cons del: keyed_run.simps)
  qed
qed (simp add: outcomes_def times_of_def)

section \<open>The abstract limiter over time\<close>

text \<open>How many requests were admitted in the \<open>w\<close> nanoseconds from \<open>a\<close>.\<close>

definition admitted_in :: "nanos \<Rightarrow> nanos \<Rightarrow> (nanos \<times> bool) list \<Rightarrow> nat" where
  "admitted_in a w os = length (filter (\<lambda>(t, ok). ok \<and> a \<le> t \<and> t < a + w) os)"

lemma admitted_in_simps [simp]:
  "admitted_in a w [] = 0"
  "admitted_in a w ((t, ok) # os) = (if ok \<and> a \<le> t \<and> t < a + w then 1 else 0) + admitted_in a w os"
  by (simp_all add: admitted_in_def)

lemma admitted_in_append [simp]: "admitted_in a w (xs @ ys) = admitted_in a w xs + admitted_in a w ys"
  by (simp add: admitted_in_def)

lemma spec_run_after: "\<forall>t \<in> set ts. a + w \<le> t \<Longrightarrow> admitted_in a w (spec_run mx w e ts) = 0"
  by (induction ts arbitrary: e) auto

text \<open>
  Within \<open>w\<close> nanoseconds from \<open>a\<close>: a window opened at or after \<open>a\<close> lasts to the end, one opened
  before is followed by at most one more.
\<close>

lemma spec_run_new_window:
  "0 < w \<Longrightarrow> sorted ts \<Longrightarrow> a \<le> s \<Longrightarrow> admitted_in a w (spec_run mx w (Some (n, s)) ts) \<le> mx - n"
proof (induction ts arbitrary: n)
  case (Cons t ts)
  show ?case
  proof (cases "w \<le> t - s")
    case True
    then have "\<forall>t' \<in> set (t # ts). a + w \<le> t'" using Cons.prems by auto
    then have zero: "admitted_in a w (spec_run mx w (Some (n, s)) (t # ts)) = 0"
      by (rule spec_run_after)
    show ?thesis unfolding zero by (rule le0)
  next
    case False
    then show ?thesis
      using Cons.IH [of "n + 1"] Cons.prems by (auto simp: spec_step_def)
  qed
qed simp

lemma spec_run_old_window:
  "0 < w \<Longrightarrow> sorted ts \<Longrightarrow> \<forall>t \<in> set ts. a \<le> t \<Longrightarrow>
   admitted_in a w (spec_run mx w (Some (n, s)) ts) \<le> (mx - n) + mx"
proof (induction ts arbitrary: n)
  case (Cons t ts)
  show ?case
  proof (cases "w \<le> t - s")
    case True
    then show ?thesis
      using spec_run_new_window [of w ts a t mx 1] Cons.prems by (auto simp: spec_step_def)
  next
    case False
    then show ?thesis
      using Cons.IH [of "n + 1"] Cons.prems by (auto simp: spec_step_def)
  qed
qed simp

lemma spec_run_bound:
  "0 < w \<Longrightarrow> sorted ts \<Longrightarrow> (\<And>n s. e = Some (n, s) \<Longrightarrow> 1 \<le> n) \<Longrightarrow>
   admitted_in a w (spec_run mx w e ts) \<le> 2 * mx - 1"
proof (induction ts arbitrary: e)
  case (Cons t ts)
  show ?case
  proof (cases "t < a")
    case True
    have "admitted_in a w (spec_run mx w (Some (snd (spec_step mx w t e))) ts) \<le> 2 * mx - 1"
      using Cons.prems by (intro Cons.IH) (auto simp: spec_step_def split: option.splits if_splits)
    with True show ?thesis by simp
  next
    case False
    then have ge: "\<forall>t' \<in> set (t # ts). a \<le> t'" using Cons.prems by auto
    show ?thesis
    proof (cases e)
      case None
      then show ?thesis
        using spec_run_new_window [of w ts a t mx 1] Cons.prems False
        by (auto simp: spec_step_def)
    next
      case (Some p)
      then obtain n s where e: "e = Some (n, s)" "1 \<le> n" using Cons.prems by (cases p) auto
      then show ?thesis
        using spec_run_old_window [OF Cons.prems(1,2) ge, of mx n s] by simp
    qed
  qed
qed simp

text \<open>Inside one window, and across its end.\<close>

lemma spec_run_window:
  "\<forall>t \<in> set ts. t < s + w \<Longrightarrow> 0 < w \<Longrightarrow>
   spec_run mx w (Some (n, s)) ts = zip ts (map (\<lambda>i. n + i < mx) [0..<length ts])"
proof (induction ts arbitrary: n)
  case (Cons t ts)
  from Cons.IH [of "n + 1"] Cons.prems
  have "spec_run mx w (Some (n + 1, s)) ts = zip ts (map (\<lambda>i. n + 1 + i < mx) [0..<length ts])"
    by simp
  moreover have "\<not> w \<le> t - s" using Cons.prems by auto
  ultimately show ?case
    by (simp add: spec_step_def Suc_le_eq upt_conv_Cons map_Suc_upt [symmetric] comp_def del: upt_Suc)
qed simp

lemma spec_run_fresh:
  "\<forall>t \<in> set ts. t < s + w \<Longrightarrow> 0 < w \<Longrightarrow>
   spec_run mx w None (s # ts) = zip (s # ts) (map (\<lambda>i. i < mx) [0..<Suc (length ts)])"
  by (simp add: spec_run_window spec_step_def Suc_le_eq upt_conv_Cons map_Suc_upt [symmetric] comp_def
      del: upt_Suc)

lemma spec_run_renew:
  "\<forall>t' \<in> set ts. t' < s + w \<Longrightarrow> s + w \<le> t \<Longrightarrow> 0 < w \<Longrightarrow>
   spec_run mx w (Some (n, s)) (ts @ t # ts') = spec_run mx w (Some (n, s)) ts @ spec_run mx w None (t # ts')"
proof (induction ts arbitrary: n)
  case (Cons t0 ts)
  have "\<not> w \<le> t0 - s" using Cons.prems by auto
  with Cons show ?case by (simp add: spec_step_def)
next
  case Nil
  then have "w \<le> t - s" by simp
  then show ?case by (simp add: spec_step_def)
qed

lemma spec_run_replicate:
  "n + k \<le> mx \<Longrightarrow> t < s + w \<Longrightarrow> 0 < w \<Longrightarrow>
   spec_run mx w (Some (n, s)) (replicate k t) = replicate k (t, True)"
proof (induction k arbitrary: n)
  case (Suc k)
  have "\<not> w \<le> t - s" using Suc.prems by auto
  with Suc show ?case by (simp add: spec_step_def)
qed simp

lemma admitted_in_replicate:
  "admitted_in a w (replicate k (t, True)) = (if a \<le> t \<and> t < a + w then k else 0)"
  by (induction k) auto

section \<open>One tenant's window\<close>

text \<open>What the \<open>i\<close>-th request of a window is answered.\<close>

definition verdict :: "rate_limit_config \<Rightarrow> nat \<Rightarrow> unit + rate_limit_info" where
  "verdict config i =
     (if i < unat (max_requests config)
      then Inr \<lparr> ri_limit = max_requests config,
                 ri_remaining = max_requests config - word_of_nat (Suc i),
                 ri_reset_secs = window_secs config \<rparr>
      else Inl ())"

lemma check_in_window:
  assumes "m T = Some (word_of_nat n, s)" and "t < s + window config" and "n + 1 < 2 ^ 64"
    and "0 < window config"
  shows "fst (check_and_increment config T t m) = verdict config n"
    and "snd (check_and_increment config T t m) T = Some (word_of_nat (n + 1), s)"
proof -
  have "\<not> window config \<le> t - s" using assms(2,4) by linarith
  moreover have "word_of_nat n + 1 = (word_of_nat (n + 1) :: u64)" by simp
  moreover have "unat (word_of_nat (n + 1) :: u64) = n + 1" using assms(3) by (intro unat_u64_of_nat)
  ultimately show "fst (check_and_increment config T t m) = verdict config n"
    and "snd (check_and_increment config T t m) T = Some (word_of_nat (n + 1), s)"
    using assms(1)
    by (auto simp: check_and_increment_def verdict_def Let_def saturating_sub_def
        word_less_nat_alt word_le_nat_alt simp del: of_nat_add of_nat_Suc)
qed

lemma check_new_window:
  assumes "m T = None \<or> (\<exists>n s. m T = Some (n, s) \<and> s + window config \<le> t)"
  shows "fst (check_and_increment config T t m) = verdict config 0"
    and "snd (check_and_increment config T t m) T = Some (word_of_nat 1, t)"
proof -
  have "check_and_increment config T t m = check_and_increment config T t (m(T \<mapsto> (0, t)))"
  proof (cases "m T")
    case (Some p)
    with assms obtain n s where p: "p = (n, s)" "s + window config \<le> t" by auto
    then have "window config \<le> t - s" by linarith
    with Some p(1) show ?thesis by (simp add: check_and_increment_def)
  qed (simp add: check_and_increment_def)
  moreover have "check_and_increment config T t (m(T \<mapsto> (0, t))) = (verdict config 0, m(T \<mapsto> (1, t)))"
  proof (cases "max_requests config = 0")
    case False
    then have "0 < unat (max_requests config)" by (simp add: unat_gt_0)
    then show ?thesis
      by (auto simp: check_and_increment_def verdict_def saturating_sub_def Let_def word_le_nat_alt
          word_less_nat_alt)
  qed (simp add: check_and_increment_def verdict_def Let_def)
  ultimately show "fst (check_and_increment config T t m) = verdict config 0"
    and "snd (check_and_increment config T t m) T = Some (word_of_nat 1, t)"
    by simp_all
qed

lemma own_window_run:
  "m T = Some (word_of_nat n, s) \<Longrightarrow> \<forall>t \<in> set ts. t < s + window config \<Longrightarrow> n + length ts < 2 ^ 64 \<Longrightarrow>
   0 < window config \<Longrightarrow>
   map (\<lambda>(_, _, r). r) (fst (keyed_run (check_and_increment config) (map (Pair T) ts) m)) =
     map (\<lambda>i. verdict config (n + i)) [0..<length ts]"
proof (induction ts arbitrary: n m)
  case (Cons t ts)
  have c: "fst (check_and_increment config T t m) = verdict config n"
    "snd (check_and_increment config T t m) T = Some (word_of_nat (n + 1), s)"
    using check_in_window [of m T n s t config] Cons.prems by simp_all
  have "map (\<lambda>(_, _, r). r) (fst (keyed_run (check_and_increment config) (map (Pair T) ts)
      (snd (check_and_increment config T t m)))) = map (\<lambda>i. verdict config (n + 1 + i)) [0..<length ts]"
    by (rule Cons.IH) (use c(2) Cons.prems in auto)
  then show ?case
    by (simp add: keyed_run_Cons c(1) upt_conv_Cons map_Suc_upt [symmetric] comp_def
        del: keyed_run.simps upt_Suc)
qed simp

lemma filter_own: "filter (\<lambda>(k, _). k = T) rs = map (Pair T) (times_of T rs)"
  unfolding times_of_def by (auto intro!: map_idI [symmetric])

lemma map_snd_filter_own:
  "map (\<lambda>(_, _, r). r) (filter (\<lambda>(k, _). k = T) (fst (keyed_run (check_and_increment config) rs m))) =
   map (\<lambda>(_, _, r). r) (fst (keyed_run (check_and_increment config) (map (Pair T) (times_of T rs)) m))"
  using limiter.run_project [of m T m config rs] by (simp add: filter_own)

section \<open>Properties\<close>

text \<open>
  C8: The limit a tenant gets. Take any interleaved sequence of requests of any tenants, and let
  tenant \<open>T\<close> make its first request at \<open>t0\<close> (having no counter yet, or one whose window is over)
  and all its others before the window from \<open>t0\<close> ends. Then the \<open>i\<close>-th request of \<open>T\<close> is admitted
  exactly when \<open>i < max_requests\<close>, and reports \<open>max_requests - (i + 1)\<close> requests remaining,
  whatever the other tenants do in between.
\<close>

theorem window_admits_exactly_the_limit:
  assumes "times_of T rs = t0 # ts"
    and "m T = None \<or> (\<exists>n s. m T = Some (n, s) \<and> s + window config \<le> t0)"
    and "\<forall>t \<in> set ts. t < t0 + window config"
    and "0 < window_secs config" and "length (times_of T rs) < 2 ^ 64"
  shows "map (\<lambda>(_, _, r). r) (filter (\<lambda>(k, _). k = T) (fst (keyed_run (check_and_increment config) rs m))) =
    map (\<lambda>i. if i < unat (max_requests config)
             then Inr \<lparr> ri_limit = max_requests config,
                        ri_remaining = max_requests config - word_of_nat (Suc i),
                        ri_reset_secs = window_secs config \<rparr>
             else Inl ())
      [0..<length (times_of T rs)]"
proof -
  note c = check_new_window [of m T config t0, OF assms(2)]
  have w: "0 < window config" using assms(4) by (simp add: window_def word_less_nat_alt)
  have "map (\<lambda>(_, _, r). r) (fst (keyed_run (check_and_increment config) (map (Pair T) ts)
      (snd (check_and_increment config T t0 m)))) = map (\<lambda>i. verdict config (1 + i)) [0..<length ts]"
    by (rule own_window_run) (use c(2) w assms(1,3,5) in auto)
  then show ?thesis
    unfolding map_snd_filter_own
    by (simp add: assms(1) keyed_run_Cons c(1) upt_conv_Cons map_Suc_upt [symmetric] comp_def
        verdict_def [symmetric] del: keyed_run.simps upt_Suc of_nat_Suc)
qed

lemma window_admits_exactly_the_limit_witness:
  "map (\<lambda>(_, _, r). r) (filter (\<lambda>(k, _). k = 7) (fst (keyed_run
       (check_and_increment \<lparr> max_requests = 1, window_secs = 60 \<rparr>) [(7, 5), (8, 6), (7, 9)] Map.empty))) =
   [Inr \<lparr> ri_limit = 1, ri_remaining = 0, ri_reset_secs = 60 \<rparr>, Inl ()]"
  using window_admits_exactly_the_limit [of 7 "[(7, 5), (8, 6), (7, 9)]" 5 "[9]" Map.empty
      "\<lparr> max_requests = 1, window_secs = 60 \<rparr>"]
  by (simp add: times_of_def window_def upt_rec)

text \<open>
  C24: What the limiter bounds over time. Whatever the interleaving, a tenant starting without a
  counter gets at most \<open>2 * max_requests - 1\<close> requests admitted in any interval as long as the
  window (a fixed-window limiter cannot promise \<open>max_requests\<close>; the next property shows the bound
  is reached).
\<close>

theorem any_window_bound:
  assumes "sorted (times_of T rs)" and "m T = None" and "length (times_of T rs) < 2 ^ 64"
  shows "admitted_in a (window config) (outcomes config T rs m) \<le> 2 * unat (max_requests config) - 1"
proof (cases "window config = 0")
  case True
  have "admitted_in a 0 os = 0" for os by (induction os) auto
  with True show ?thesis by simp
next
  case False
  have "outcomes config T rs m = spec_run (unat (max_requests config)) (window config) None (times_of T rs)"
    using outcomes_refine [of T rs m config] assms by (simp add: entry_count_def abs_entry_def)
  with spec_run_bound [of "window config" "times_of T rs" None] False assms(1) show ?thesis by simp
qed

lemma any_window_bound_witness:
  "admitted_in 3 (60 * 10 ^ 9) (outcomes \<lparr> max_requests = 1, window_secs = 60 \<rparr> 7
     [(7, 5), (8, 6), (7, 9)] Map.empty) \<le> 1"
  using any_window_bound [of 7 "[(7, 5), (8, 6), (7, 9)]" Map.empty 3 "\<lparr> max_requests = 1, window_secs = 60 \<rparr>"]
  by (simp add: times_of_def window_def)

text \<open>The schedule of a tenant that spends two allowances around the end of its window.\<close>

definition burst :: "rate_limit_config \<Rightarrow> uuid \<Rightarrow> (uuid \<times> nanos) list" where
  "burst config T = map (Pair T) (0 # replicate (unat (max_requests config) - 1) (window config - 1) @
     replicate (unat (max_requests config)) (window config))"

lemma times_burst: "times_of T (burst config T) =
   0 # replicate (unat (max_requests config) - 1) (window config - 1) @
     replicate (unat (max_requests config)) (window config)"
  by (simp add: times_of_def burst_def filter_map comp_def)

text \<open>
  The limiter is not a sliding window. A tenant that opens a window, waits for its last
  nanosecond, sends the rest of its allowance and the whole next one, gets
  \<open>2 * max_requests - 1\<close> requests admitted within two nanoseconds, though the module's
  documentation promises a sliding window of \<open>max_requests\<close>.
\<close>

theorem double_burst_at_window_end:
  assumes "0 < max_requests config" and "0 < window_secs config" and "unat (max_requests config) < 2 ^ 63"
  shows "admitted_in (window config - 1) 2 (outcomes config T (burst config T) Map.empty) =
    2 * unat (max_requests config) - 1"
proof -
  let ?mx = "unat (max_requests config)" and ?w = "window config"
  have mx: "0 < ?mx" and w: "2 \<le> ?w"
    using assms(1,2) by (auto simp: window_def word_less_nat_alt)
  then obtain k where k: "?mx = Suc k" by (cases ?mx) auto
  have "outcomes config T (burst config T) Map.empty = spec_run ?mx ?w None (times_of T (burst config T))"
    using outcomes_refine [of T "burst config T" Map.empty config] assms(3) mx
    by (simp add: entry_count_def abs_entry_def times_burst)
  also have "\<dots> = (0, True) # spec_run ?mx ?w (Some (1, 0)) (replicate k (?w - 1) @ ?w # replicate k ?w)"
    by (simp add: times_burst k spec_step_def)
  also have "\<dots> = (0, True) # replicate k (?w - 1, True) @ (?w, True) # replicate k (?w, True)"
    using w k by (simp add: spec_run_renew spec_run_replicate spec_step_def)
  finally show ?thesis using w k by (auto simp: admitted_in_replicate)
qed

lemma double_burst_at_window_end_witness:
  "admitted_in (60 * 10 ^ 9 - 1) 2 (outcomes default_rate_limit 7 (burst default_rate_limit 7) Map.empty) = 199"
  using double_burst_at_window_end [of default_rate_limit 7] by (simp add: default_rate_limit_def window_def)

text \<open>
  C25: What the middleware does with the verdict. A refused request is answered 429 with a
  \<^verbatim>\<open>Retry-After\<close> that reads back as the window, and the rest of the stack does not run; an
  admitted one is answered by the rest of the stack, status, body and its other headers unchanged,
  with headers that read back as the limit and the remaining allowance. The counters move the same
  way on both.
\<close>

theorem middleware_gates_the_stack:
  "case rate_limit_middleware config (Some c) now nxt (m, s) of
     (answer, m', s') \<Rightarrow>
       m' = snd (check_and_increment config (cl_tenant_id c) now m) \<and>
       (case fst (check_and_increment config (cl_tenant_id c) now m) of
          Inl _ \<Rightarrow> s' = s \<and>
            (\<exists>response. answer = Some response \<and> rp_code response = 429 \<and>
               map_option parse_u64 (rp_headers response ''Retry-After'') = Some (Some (window_secs config)))
        | Inr info \<Rightarrow> s' = snd (nxt s) \<and>
            (case (fst (nxt s), answer) of
               (None, None) \<Rightarrow> True
             | (Some inner, Some response) \<Rightarrow>
                 rp_code response = rp_code inner \<and> rp_body response = rp_body inner \<and>
                 map_option parse_u64 (rp_headers response ''X-RateLimit-Limit'') = Some (Some (max_requests config)) \<and>
                 map_option parse_u64 (rp_headers response ''X-RateLimit-Remaining'') = Some (Some (ri_remaining info)) \<and>
                 rp_headers response |` (- {''X-RateLimit-Limit'', ''X-RateLimit-Remaining'', ''X-RateLimit-Reset''}) =
                   rp_headers inner |` (- {''X-RateLimit-Limit'', ''X-RateLimit-Remaining'', ''X-RateLimit-Reset''})
             | _ \<Rightarrow> False))"
proof -
  obtain v m1 where v: "check_and_increment config (cl_tenant_id c) now m = (v, m1)" by fastforce
  obtain rp s1 where n: "nxt s = (rp, s1)" by fastforce
  have lim: "ri_limit info = max_requests config" if "v = Inr info" for info
    using v that by (auto simp: check_and_increment_def Let_def split: if_splits)
  show ?thesis
  proof (cases v)
    case (Inl u)
    then show ?thesis
      by (simp add: rate_limit_middleware_def v n too_many_requests_def parse_show_u64)
  next
    case (Inr info)
    then show ?thesis
      by (cases rp) (simp_all add: rate_limit_middleware_def v n with_rate_headers_def lim parse_show_u64
          restrict_map_def fun_eq_iff)
  qed
qed

end
