(* ===== verification/Auth.thy ===== *)
theory Auth
  imports Config Http
begin

text \<open>
  \<^verbatim>\<open>crates/backup-service/src/middleware/auth.rs\<close> and \<^verbatim>\<open>handlers/auth.rs\<close>: signed tokens, the
  middleware that admits a request with the claims of its token, and the demonstration login. The
  JWT library and \<^verbatim>\<open>HeaderValue::to_str\<close> are parameters; the locale \<^verbatim>\<open>jwt_library\<close> states what the
  code relies on. Wall clock times are in seconds since the epoch.
\<close>

section \<open>The libraries\<close>

record auth_libs =
  jw_encode :: "claims \<Rightarrow> string \<Rightarrow> jwt_error + string"
  jw_decode :: "string \<Rightarrow> string \<Rightarrow> nat \<Rightarrow> jwt_error + claims"
  hv_to_str :: "string \<Rightarrow> string option"

section \<open>Tokens\<close>

text \<open>\<^verbatim>\<open>timestamp() as usize\<close> reinterprets the 64 bits.\<close>

definition create_token ::
    "auth_libs \<Rightarrow> int \<Rightarrow> string \<Rightarrow> uuid \<Rightarrow> string list \<Rightarrow> string \<Rightarrow> app_error + string" where
  "create_token J now user_id tenant_id roles secret =
     (let claims = \<lparr> cl_sub = user_id, cl_tenant_id = tenant_id, cl_roles = roles,
                     cl_exp = word_of_int (now + 24 * 60 * 60), cl_iat = word_of_int now \<rparr>
      in map_err Jwt (jw_encode J claims secret))"

definition verify_token :: "auth_libs \<Rightarrow> nat \<Rightarrow> string \<Rightarrow> string \<Rightarrow> app_error + claims" where
  "verify_token J now token secret = map_err Jwt (jw_decode J token secret now)"

section \<open>The middleware\<close>

text \<open>
  The rest of the stack, \<open>nxt\<close>, runs with the claims as an extension of the request. Header names
  are in their canonical spelling.
\<close>

definition bearer_token :: "auth_libs \<Rightarrow> (string \<Rightarrow> string option) \<Rightarrow> app_error + string" where
  "bearer_token J headers =
     (case Option.bind (Option.bind (headers ''Authorization'') (hv_to_str J)) (strip_prefix ''Bearer '') of
        None \<Rightarrow> Inl (Unauthorized ''missing or invalid Authorization header'')
      | Some token \<Rightarrow> Inr token)"

definition auth_middleware ::
    "auth_libs \<Rightarrow> app_config \<Rightarrow> nat \<Rightarrow> (string \<Rightarrow> string option) \<Rightarrow>
     (claims \<Rightarrow> 's \<Rightarrow> 'f http_reply option \<times> 's) \<Rightarrow> 's \<Rightarrow> 'f http_reply option \<times> 's" where
  "auth_middleware J config now headers nxt s =
     (case bearer_token J headers of
        Inl e \<Rightarrow> (Some (error_reply e), s)
      | Inr token \<Rightarrow>
          (case verify_token J now token (jwt_secret config) of
             Inl e \<Rightarrow> (Some (error_reply e), s)
           | Inr claims \<Rightarrow> nxt claims s))"

section \<open>Login\<close>

record login_request =
  lq_username :: string
  lq_password :: string

text \<open>The UUID \<^verbatim>\<open>00000000-0000-0000-0000-000000000001\<close>, tenant of both demonstration users.\<close>

definition demo_tenant :: uuid where
  "demo_tenant = 1"

definition login :: "auth_libs \<Rightarrow> app_config \<Rightarrow> int \<Rightarrow> login_request \<Rightarrow> app_error + login_response" where
  "login J config now req =
     (case (if lq_username req = ''admin'' \<and> lq_password req = ''admin''
            then Inr (demo_tenant, [''admin'', ''user''])
            else if lq_username req = ''user'' \<and> lq_password req = ''user''
            then Inr (demo_tenant, [''user''])
            else Inl (Unauthorized ''invalid credentials'')) of
        Inl e \<Rightarrow> Inl e
      | Inr (tenant_id, roles) \<Rightarrow>
          (case create_token J now (lq_username req) tenant_id roles (jwt_secret config) of
             Inl e \<Rightarrow> Inl e
           | Inr token \<Rightarrow> Inr \<lparr> lg_token = token, lg_token_type = ''Bearer'', lg_expires_in = 86400 \<rparr>))"

section \<open>What the code relies on\<close>

text \<open>
  A header value is its own text when it is visible ASCII, which a token is; a token decodes
  under the secret it was signed with to the claims it was made of, until a minute (the default
  leeway of \<^verbatim>\<open>Validation\<close>) after its expiry, and to nothing later.
\<close>

locale jwt_library =
  fixes J :: auth_libs
  assumes to_str_id: "hv_to_str J v = Some v' \<Longrightarrow> v' = v"
    and token_text: "jw_encode J c secret = Inr token \<Longrightarrow>
      hv_to_str J (''Bearer '' @ token) = Some (''Bearer '' @ token)"
    and decode_encode: "jw_encode J c secret = Inr token \<Longrightarrow> now \<le> unat (cl_exp c) + 60 \<Longrightarrow>
      jw_decode J token secret now = Inr c"
    and decode_expired: "jw_encode J c secret = Inr token \<Longrightarrow> unat (cl_exp c) + 60 < now \<Longrightarrow>
      \<not> is_ok (jw_decode J token secret now)"
    and decode_fresh: "jw_decode J token secret now = Inr c \<Longrightarrow> now \<le> unat (cl_exp c) + 60"
begin

lemma bearer_tokenI:
  assumes "headers ''Authorization'' = Some v" and "hv_to_str J v = Some v" and "v = ''Bearer '' @ token"
  shows "bearer_token J headers = Inr token"
proof -
  have "strip_prefix ''Bearer '' v = Some token" unfolding assms(3) by (rule strip_prefix_append)
  with assms(1,2) show ?thesis by (simp add: bearer_token_def)
qed

lemma bearer_tokenD:
  assumes "bearer_token J headers = Inr token"
  shows "headers ''Authorization'' = Some (''Bearer '' @ token)"
proof -
  obtain v w where v: "headers ''Authorization'' = Some v" "hv_to_str J v = Some w"
    and w: "strip_prefix ''Bearer '' w = Some token"
    using assms by (auto simp: bearer_token_def bind_eq_Some_conv split: option.splits)
  from w have "w = ''Bearer '' @ token" by (simp only: strip_prefix_Some_iff)
  with v to_str_id show ?thesis by metis
qed

lemma bearer_token_Inl: "bearer_token J headers = Inl e \<Longrightarrow>
    e = Unauthorized ''missing or invalid Authorization header''"
  by (simp add: bearer_token_def split: option.splits)

lemma created_token:
  assumes "create_token J now user tn roles secret = Inr token" and "0 \<le> now" and "now + 86400 < 2 ^ 63"
  shows "verify_token J t token secret =
      (if int t \<le> now + 86460
       then Inr \<lparr> cl_sub = user, cl_tenant_id = tn, cl_roles = roles,
                  cl_exp = word_of_int (now + 86400), cl_iat = word_of_int now \<rparr>
       else verify_token J t token secret)"
    and "now + 86460 < int t \<Longrightarrow> \<not> is_ok (verify_token J t token secret)"
    and "bearer_token J [''Authorization'' \<mapsto> ''Bearer '' @ token] = Inr token"
proof -
  let ?c = "\<lparr> cl_sub = user, cl_tenant_id = tn, cl_roles = roles,
              cl_exp = word_of_int (now + 86400), cl_iat = word_of_int now \<rparr>"
  have e: "jw_encode J ?c secret = Inr token"
    using assms(1) by (simp add: create_token_def)
  obtain n where n: "n = unat (cl_exp ?c)" by simp
  have x: "int n = now + 86400"
    using unat_u64_of_int [of "now + 86400"] assms(2,3) unfolding n by simp
  show "verify_token J t token secret = (if int t \<le> now + 86460 then Inr ?c else verify_token J t token secret)"
    using decode_encode [OF e, of t, folded n] x by (auto simp: verify_token_def)
  show "\<not> is_ok (verify_token J t token secret)" if "now + 86460 < int t"
    using decode_expired [OF e, of t, folded n] x that
    by (cases "jw_decode J token secret t") (simp_all add: verify_token_def)
  show "bearer_token J [''Authorization'' \<mapsto> ''Bearer '' @ token] = Inr token"
    by (rule bearer_tokenI [OF _ token_text [OF e] refl]) simp
qed

end

section \<open>A reference library\<close>

text \<open>
  The instance the properties are run on signs the claims the program makes, a demonstration user
  with a day until expiry, by writing the user, the time and the secret into the token; it refuses
  to sign anything else.
\<close>

definition demo_claims :: "string \<Rightarrow> u64 \<Rightarrow> claims" where
  "demo_claims user iat =
     \<lparr> cl_sub = user, cl_tenant_id = demo_tenant,
       cl_roles = (if user = ''admin'' then [''admin'', ''user''] else [''user'']),
       cl_exp = iat + 86400, cl_iat = iat \<rparr>"

definition visible :: "string \<Rightarrow> bool" where
  "visible s = list_all (\<lambda>c. of_char c \<in> {32::nat..<127} \<or> of_char c = (9::nat)) s"

definition demo_text :: "claims \<Rightarrow> string \<Rightarrow> string" where
  "demo_text c secret = cl_sub c @ ''.'' @ show_u64 (cl_iat c) @ ''.'' @ secret"

definition split_dot :: "string \<Rightarrow> string \<times> string" where
  "split_dot s = (takeWhile (\<lambda>c. c \<noteq> CHR ''.'') s, drop 1 (dropWhile (\<lambda>c. c \<noteq> CHR ''.'') s))"

definition demo_read :: "string \<Rightarrow> string \<Rightarrow> claims option" where
  "demo_read token secret =
     (let (user, rest) = split_dot token; (iat, sec) = split_dot rest
      in if sec = secret then map_option (demo_claims user) (parse_u64 iat) else None)"

definition demo_jwt :: auth_libs where
  "demo_jwt =
     \<lparr> jw_encode = (\<lambda>c secret.
         if cl_sub c \<in> {''admin'', ''user''} \<and> c = demo_claims (cl_sub c) (cl_iat c) \<and> visible (demo_text c secret)
         then Inr (demo_text c secret) else Inl (JwtError ''encoding'')),
       jw_decode = (\<lambda>token secret now.
         case demo_read token secret of
           None \<Rightarrow> Inl (JwtError ''InvalidToken'')
         | Some c \<Rightarrow> if unat (cl_exp c) + 60 < now then Inl (JwtError ''ExpiredSignature'') else Inr c),
       hv_to_str = (\<lambda>v. if visible v then Some v else None) \<rparr>"

lemma split_dot: "CHR ''.'' \<notin> set a \<Longrightarrow> split_dot (a @ CHR ''.'' # b) = (a, b)"
  unfolding split_dot_def by (subst takeWhile_append2, force, subst dropWhile_append2, force) simp

lemma no_dot_show_nat: "CHR ''.'' \<notin> set (show_nat n)"
proof (induction n rule: show_nat.induct)
  case (1 n)
  have "CHR ''.'' \<noteq> digit_char d" if "d < 10" for d
    using that by (auto simp: digit_char_def dest!: arg_cong [where f = "of_char :: char \<Rightarrow> nat"])
  with 1 show ?case by (subst show_nat.simps) auto
qed

lemma demo_read_text:
  assumes "cl_sub c \<in> {''admin'', ''user''}" and "c = demo_claims (cl_sub c) (cl_iat c)"
  shows "demo_read (demo_text c secret) secret = Some c"
proof -
  have "CHR ''.'' \<notin> set (cl_sub c)" using assms(1) by auto
  moreover have "CHR ''.'' \<notin> set (show_u64 (cl_iat c))" by (simp add: show_u64_def no_dot_show_nat)
  ultimately show ?thesis
    using assms(2) by (simp add: demo_read_def demo_text_def split_dot parse_show_u64)
qed

interpretation demo_jwt: jwt_library demo_jwt
proof
  fix v v' c secret token now
  show "hv_to_str demo_jwt v = Some v' \<Longrightarrow> v' = v"
    by (simp add: demo_jwt_def split: if_splits)
  assume e: "jw_encode demo_jwt c secret = Inr token"
  then have t: "token = demo_text c secret" "visible token" "demo_read token secret = Some c"
    using demo_read_text [of c secret] by (auto simp: demo_jwt_def split: if_splits)
  have "visible ''Bearer ''" by code_simp
  with t(2) have "visible (''Bearer '' @ token)" unfolding visible_def by (simp only: list_all_append)
  then show "hv_to_str demo_jwt (''Bearer '' @ token) = Some (''Bearer '' @ token)"
    by (simp only: demo_jwt_def auth_libs.select_convs if_True)
  show "now \<le> unat (cl_exp c) + 60 \<Longrightarrow> jw_decode demo_jwt token secret now = Inr c"
    and "unat (cl_exp c) + 60 < now \<Longrightarrow> \<not> is_ok (jw_decode demo_jwt token secret now)"
    by (simp_all add: demo_jwt_def t(3))
next
  show "jw_decode demo_jwt token secret now = Inr c \<Longrightarrow> now \<le> unat (cl_exp c) + 60" for token secret now c
    by (auto simp: demo_jwt_def split: option.splits if_splits)
qed

text \<open>The claims with which a request gets through.\<close>

definition admits :: "auth_libs \<Rightarrow> app_config \<Rightarrow> nat \<Rightarrow> (string \<Rightarrow> string option) \<Rightarrow> claims \<Rightarrow> bool" where
  "admits J config now headers c =
     (\<exists>token. headers ''Authorization'' = Some (''Bearer '' @ token) \<and>
        verify_token J now token (jwt_secret config) = Inr c \<and> now \<le> unat (cl_exp c) + 60)"

lemma auth_middleware_cases:
  assumes "jwt_library J"
  shows "(\<exists>c. admits J config now headers c \<and> auth_middleware J config now headers nxt s = nxt c s) \<or>
     (\<exists>e. er_code (into_response e) = 401 \<and>
        auth_middleware J config now headers nxt s = (Some (error_reply e), s))"
proof (cases "bearer_token J headers")
  case (Inl e)
  from jwt_library.bearer_token_Inl [OF assms Inl] have "er_code (into_response e) = 401"
    by (simp add: into_response_def)
  moreover have "auth_middleware J config now headers nxt s = (Some (error_reply e), s)"
    by (simp add: auth_middleware_def Inl)
  ultimately show ?thesis by blast
next
  case (Inr token)
  note header = jwt_library.bearer_tokenD [OF assms Inr]
  show ?thesis
  proof (cases "verify_token J now token (jwt_secret config)")
    case (Inl e)
    then obtain j where "e = Jwt j" by (auto simp: verify_token_def)
    then have "er_code (into_response e) = 401" by (simp add: into_response_def)
    moreover have "auth_middleware J config now headers nxt s = (Some (error_reply e), s)"
      by (simp add: auth_middleware_def Inl Inr)
    ultimately show ?thesis by blast
  next
    case v: (Inr c)
    then have "now \<le> unat (cl_exp c) + 60"
      using jwt_library.decode_fresh [OF assms] by (simp add: verify_token_def)
    with v header have "admits J config now headers c" unfolding admits_def by blast
    moreover have "auth_middleware J config now headers nxt s = nxt c s"
      by (simp add: auth_middleware_def Inr v)
    ultimately show ?thesis by blast
  qed
qed

section \<open>Properties\<close>

text \<open>
  C16: Nothing behind the middleware runs unauthenticated. Either the request carries
  \<^verbatim>\<open>Authorization: Bearer\<close> with a token that the configured secret verifies, it has not expired by
  more than the library's leeway, and the rest of the stack runs with that token's claims; or the
  answer is 401 and the service's state is untouched.
\<close>

theorem only_verified_claims_pass:
  assumes "jwt_library J"
  shows "(\<exists>token c. headers ''Authorization'' = Some (''Bearer '' @ token) \<and>
        verify_token J now token (jwt_secret config) = Inr c \<and> now \<le> unat (cl_exp c) + 60 \<and>
        auth_middleware J config now headers nxt s = nxt c s) \<or>
     map_option rp_code (fst (auth_middleware J config now headers nxt s)) = Some 401 \<and>
       snd (auth_middleware J config now headers nxt s) = s"
  using auth_middleware_cases [OF assms, of config now headers nxt s]
proof (elim disjE exE conjE)
  fix c
  assume "admits J config now headers c" "auth_middleware J config now headers nxt s = nxt c s"
  then show ?thesis unfolding admits_def by blast
qed simp

lemma only_verified_claims_pass_witness:
  "map_option rp_code (fst (auth_middleware demo_jwt dev_config 0 Map.empty
     (\<lambda>c s. (Some (reply 200 NoBody :: nat http_reply), Suc s)) 5)) = Some 401"
  using only_verified_claims_pass [OF demo_jwt.jwt_library_axioms, of Map.empty 0 dev_config
      "\<lambda>c s. (Some (reply 200 NoBody :: nat http_reply), Suc s)" 5]
  by simp

end
