(* ===== verification/Jobs.thy ===== *)
theory Jobs
  imports Cache_Layer "HOL-Library.Sublist"
begin

text \<open>
  \<^verbatim>\<open>crates/backup-common/src/worker.rs\<close>: the job message, the AMQP topology the service and the
  worker both declare when they connect, and publishing. The AMQP client is a parameter, one
  function that performs a method on the broker; the locale \<^verbatim>\<open>amqp_broker\<close> states the AMQP 0-9-1
  rules for the methods the program uses.
\<close>

section \<open>The job message\<close>

definition EXCHANGE_NAME :: string where "EXCHANGE_NAME = ''backup_events''"
definition QUEUE_NAME :: string where "QUEUE_NAME = ''backup_jobs''"
definition ROUTING_KEY :: string where "ROUTING_KEY = ''backup.process''"

record backup_job =
  j_backup_id :: uuid
  j_tenant_id :: uuid
  j_source_path :: string
  j_encryption_enabled :: bool

section \<open>AMQP methods\<close>

datatype exchange_kind = Direct | Fanout | Topic | Headers

text \<open>
  The methods with the arguments the program gives; options it leaves at their defaults and the
  empty argument tables are not repeated.
\<close>

datatype 'j amqp_method =
    Connect string
  | CreateChannel
  | ExchangeDeclare string exchange_kind bool
  | QueueDeclare string bool
  | QueueBind string string string
  | BasicPublish string string 'j string nat
  | BasicConsume string string

datatype amqp_error = AmqpError string

type_synonym ('q, 'j) amqp_client = "'j amqp_method \<Rightarrow> 'q \<Rightarrow> (amqp_error + unit) \<times> 'q"

text \<open>A sequence of awaited calls, each followed by \<^verbatim>\<open>?\<close>.\<close>

fun amqp_calls :: "('q, 'j) amqp_client \<Rightarrow> 'j amqp_method list \<Rightarrow> 'q \<Rightarrow> (amqp_error + unit) \<times> 'q" where
  "amqp_calls call [] q = (Inr (), q)"
| "amqp_calls call (m # ms) q =
     (case call m q of
        (Inl e, q') \<Rightarrow> (Inl e, q')
      | (Inr _, q') \<Rightarrow> amqp_calls call ms q')"

definition connect_rabbitmq :: "('q, 'j) amqp_client \<Rightarrow> string \<Rightarrow> 'q \<Rightarrow> (amqp_error + unit) \<times> 'q" where
  "connect_rabbitmq call url =
     amqp_calls call
       [Connect url,
        CreateChannel,
        ExchangeDeclare EXCHANGE_NAME Direct True,
        QueueDeclare QUEUE_NAME True,
        QueueBind QUEUE_NAME EXCHANGE_NAME ROUTING_KEY]"

definition create_channel :: "('q, 'j) amqp_client \<Rightarrow> 'q \<Rightarrow> (amqp_error + unit) \<times> 'q" where
  "create_channel call = call CreateChannel"

text \<open>
  \<^verbatim>\<open>publish_job\<close>. The channel is not in confirm mode, so the second \<^verbatim>\<open>await\<close> returns at once. A job
  that cannot be serialised panics, which is \<^const>\<open>None\<close>.
\<close>

definition publish_job ::
    "(backup_job, 'j) codec \<Rightarrow> ('q, 'j) amqp_client \<Rightarrow> backup_job \<Rightarrow> 'q \<Rightarrow> ((amqp_error + unit) \<times> 'q) option" where
  "publish_job json call job q =
     (case to_json json job of
        Inl e \<Rightarrow> None
      | Inr payload \<Rightarrow>
          Some (amqp_calls call [BasicPublish EXCHANGE_NAME ROUTING_KEY payload ''application/json'' 2] q))"

section \<open>What a broker does\<close>

text \<open>
  \<open>queued\<close> is what a queue holds; \<open>bound q ex rk\<close> the queues an exchange routes a key to, if the
  exchange exists. A declaration that is accepted leaves an equal existing object as it is. A message that
  is published goes to the end of the queues its exchange routes it to, if it arrives: the channel
  is not in confirm mode, so neither the success nor the failure of the client's call says whether
  the broker has taken the message.
\<close>

locale amqp_broker =
  fixes call :: "('q, 'j) amqp_client"
    and queued :: "'q \<Rightarrow> string \<Rightarrow> 'j list"
    and routes :: "'q \<Rightarrow> string \<Rightarrow> string \<Rightarrow> string \<Rightarrow> bool"
  assumes no_publish: "(\<And>ex rk p ct dm. m \<noteq> BasicPublish ex rk p ct dm) \<Longrightarrow> queued (snd (call m q)) n = queued q n"
    and routes_kept: "(\<And>k ex rk. m \<noteq> QueueBind k ex rk) \<Longrightarrow> routes (snd (call m q)) = routes q"
    and bind_adds: "fst (call (QueueBind k ex rk) q) = Inr () \<Longrightarrow>
      routes (snd (call (QueueBind k ex rk) q)) ex' rk' k' \<longleftrightarrow>
        routes q ex' rk' k' \<or> ex' = ex \<and> rk' = rk \<and> k' = k"
    and publish_may_queue: "queued (snd (call (BasicPublish ex rk p ct dm) q)) n = queued q n \<or>
      routes q ex rk n \<and> queued (snd (call (BasicPublish ex rk p ct dm) q)) n = queued q n @ [p]"
begin

text \<open>Connecting, and connecting again, loses no message and leaves the jobs routed to the queue.\<close>

lemma calls_no_publish:
  "(\<And>m ex rk p ct dm. m \<in> set ms \<Longrightarrow> m \<noteq> BasicPublish ex rk p ct dm) \<Longrightarrow>
   queued (snd (amqp_calls call ms q)) n = queued q n"
proof (induction ms arbitrary: q)
  case (Cons m ms)
  then have "queued (snd (call m q)) n = queued q n" by (intro no_publish) auto
  with Cons show ?case by (auto split: prod.splits sum.splits)
qed simp

lemma connect_keeps_messages: "queued (snd (connect_rabbitmq call url q)) n = queued q n"
  unfolding connect_rabbitmq_def by (rule calls_no_publish) auto

lemma calls_routes:
  "(\<And>m k ex rk. m \<in> set ms \<Longrightarrow> m \<noteq> QueueBind k ex rk) \<Longrightarrow> routes (snd (amqp_calls call ms q)) = routes q"
proof (induction ms arbitrary: q)
  case (Cons m ms)
  then have "routes (snd (call m q)) = routes q" by (intro routes_kept) auto
  with Cons show ?case by (auto split: prod.splits sum.splits)
qed simp

lemma amqp_calls_append:
  "fst (amqp_calls call (ms @ ms') q) = Inr () \<Longrightarrow>
   amqp_calls call (ms @ ms') q = amqp_calls call ms' (snd (amqp_calls call ms q))"
  by (induction ms arbitrary: q) (auto split: prod.splits sum.splits)

lemma connect_routes:
  assumes "fst (connect_rabbitmq call url q) = Inr ()"
  shows "routes (snd (connect_rabbitmq call url q)) ex rk k \<longleftrightarrow>
    routes q ex rk k \<or> ex = EXCHANGE_NAME \<and> rk = ROUTING_KEY \<and> k = QUEUE_NAME"
proof -
  let ?d = "[Connect url, CreateChannel, ExchangeDeclare EXCHANGE_NAME Direct True, QueueDeclare QUEUE_NAME True]"
  let ?b = "QueueBind QUEUE_NAME EXCHANGE_NAME ROUTING_KEY"
  let ?q = "snd (amqp_calls call ?d q)"
  have c: "connect_rabbitmq call url q = amqp_calls call (?d @ [?b]) q"
    by (simp add: connect_rabbitmq_def)
  then have "connect_rabbitmq call url q = amqp_calls call [?b] ?q"
    using amqp_calls_append assms by metis
  then have "connect_rabbitmq call url q = call ?b ?q"
    by (simp split: prod.splits sum.splits)
  moreover from this assms have "fst (call ?b ?q) = Inr ()" by metis
  moreover have "routes ?q = routes q" by (rule calls_routes) auto
  ultimately show ?thesis by (simp only: bind_adds)
qed

lemma publish_outcome:
  assumes "publish_job json call job q = Some (r, q')"
  shows "\<exists>p. to_json json job = Inr p \<and> routes q' = routes q \<and>
    (queued q' n = queued q n \<or> routes q EXCHANGE_NAME ROUTING_KEY n \<and> queued q' n = queued q n @ [p])"
proof -
  obtain p where p: "to_json json job = Inr p"
    using assms by (auto simp: publish_job_def split: sum.splits)
  let ?m = "BasicPublish EXCHANGE_NAME ROUTING_KEY p ''application/json'' 2"
  have c: "call ?m q = (r, q')"
    using assms by (cases "call ?m q") (auto simp: publish_job_def p split: sum.splits)
  have "routes (snd (call ?m q)) = routes q" by (rule routes_kept) simp
  with publish_may_queue [of EXCHANGE_NAME ROUTING_KEY p "''application/json''" 2 q n] p c show ?thesis by auto
qed

end

section \<open>Publishing many jobs\<close>

text \<open>Jobs published one after the other, by requests that go on whatever became of the ones before.\<close>

fun publish_all :: "(backup_job, 'j) codec \<Rightarrow> ('q, 'j) amqp_client \<Rightarrow> backup_job list \<Rightarrow> 'q \<Rightarrow> 'q option" where
  "publish_all json call [] q = Some q"
| "publish_all json call (job # jobs) q =
     (case publish_job json call job q of
        Some (_, q') \<Rightarrow> publish_all json call jobs q'
      | None \<Rightarrow> None)"

definition codec_ok :: "('a, 'j) codec \<Rightarrow> bool" where
  "codec_ok c = (\<forall>x j. to_json c x = Inr j \<longrightarrow> of_json c j = Inr x)"

context amqp_broker begin

lemma publish_all_queued:
  assumes "codec_ok json"
  shows "publish_all json call jobs q = Some q' \<Longrightarrow>
    \<exists>kept. subseq kept jobs \<and> map (of_json json) (queued q' n) = map (of_json json) (queued q n) @ map Inr kept \<and>
      (\<not> routes q EXCHANGE_NAME ROUTING_KEY n \<longrightarrow> kept = [])"
proof (induction jobs arbitrary: q)
  case (Cons job jobs)
  obtain r q1 where p: "publish_job json call job q = Some (r, q1)" "publish_all json call jobs q1 = Some q'"
    using Cons.prems(1) by (auto split: option.splits prod.splits)
  from publish_outcome [OF p(1), of n] obtain x where x: "to_json json job = Inr x" "routes q1 = routes q"
    "queued q1 n = queued q n \<or> routes q EXCHANGE_NAME ROUTING_KEY n \<and> queued q1 n = queued q n @ [x]"
    by blast
  from Cons.IH [OF p(2)] obtain kept where k: "subseq kept jobs"
    "map (of_json json) (queued q' n) = map (of_json json) (queued q1 n) @ map Inr kept"
    "\<not> routes q EXCHANGE_NAME ROUTING_KEY n \<longrightarrow> kept = []"
    unfolding x(2) by blast
  from x(3) show ?case
  proof
    assume "queued q1 n = queued q n"
    with k show ?thesis by (intro exI [of _ kept]) (auto intro: list_emb_Cons)
  next
    assume "routes q EXCHANGE_NAME ROUTING_KEY n \<and> queued q1 n = queued q n @ [x]"
    moreover have "of_json json x = Inr job" using assms x(1) by (simp add: codec_ok_def)
    ultimately show ?thesis using k by (intro exI [of _ "job # kept"]) simp
  qed
qed simp

end

section \<open>A reference broker\<close>

record 'j mem_broker =
  mb_exchanges :: "string \<Rightarrow> (exchange_kind \<times> bool) option"
  mb_queues :: "string \<Rightarrow> bool option"
  mb_bindings :: "(string \<times> string \<times> string) list"
  mb_messages :: "string \<Rightarrow> 'j list"

definition empty_broker :: "'j mem_broker" where
  "empty_broker = \<lparr> mb_exchanges = Map.empty, mb_queues = Map.empty, mb_bindings = [], mb_messages = (\<lambda>_. []) \<rparr>"

fun mem_amqp :: "('j mem_broker, 'j) amqp_client" where
  "mem_amqp (Connect url) q = (Inr (), q)"
| "mem_amqp CreateChannel q = (Inr (), q)"
| "mem_amqp (ExchangeDeclare n k d) q =
     (if mb_exchanges q n \<in> {None, Some (k, d)}
      then (Inr (), q\<lparr> mb_exchanges := (mb_exchanges q)(n \<mapsto> (k, d)) \<rparr>)
      else (Inl (AmqpError ''PRECONDITION_FAILED''), q))"
| "mem_amqp (QueueDeclare n d) q =
     (if mb_queues q n \<in> {None, Some d}
      then (Inr (), q\<lparr> mb_queues := (mb_queues q)(n \<mapsto> d) \<rparr>)
      else (Inl (AmqpError ''PRECONDITION_FAILED''), q))"
| "mem_amqp (QueueBind k ex rk) q =
     (if mb_queues q k = None \<or> mb_exchanges q ex = None then (Inl (AmqpError ''NOT_FOUND''), q)
      else (Inr (), q\<lparr> mb_bindings := List.insert (ex, rk, k) (mb_bindings q) \<rparr>))"
| "mem_amqp (BasicPublish ex rk p ct dm) q =
     (if mb_exchanges q ex = None then (Inl (AmqpError ''NOT_FOUND''), q)
      else (Inr (), q\<lparr> mb_messages := (\<lambda>n. mb_messages q n @ (if (ex, rk, n) \<in> set (mb_bindings q) then [p] else [])) \<rparr>))"
| "mem_amqp (BasicConsume k tag) q =
     (if mb_queues q k = None then (Inl (AmqpError ''NOT_FOUND''), q) else (Inr (), q))"

definition mem_routes :: "'j mem_broker \<Rightarrow> string \<Rightarrow> string \<Rightarrow> string \<Rightarrow> bool" where
  "mem_routes q ex rk k = ((ex, rk, k) \<in> set (mb_bindings q))"

interpretation mem_amqp: amqp_broker mem_amqp mb_messages mem_routes
proof unfold_locales
  fix m :: "'j amqp_method" and q :: "'j mem_broker" and n
  show "mb_messages (snd (mem_amqp m q)) n = mb_messages q n" if "\<And>ex rk p ct dm. m \<noteq> BasicPublish ex rk p ct dm"
  proof (cases m)
    case (BasicPublish ex rk p ct dm)
    with that show ?thesis by blast
  qed simp_all
  show "(\<And>k ex rk. m \<noteq> QueueBind k ex rk) \<Longrightarrow> mem_routes (snd (mem_amqp m q)) = mem_routes q"
    by (cases m) (auto simp: mem_routes_def fun_eq_iff)
qed (auto simp: mem_routes_def split: if_splits)

text \<open>A broker that loses everything on its way to it: the client's calls succeed all the same.\<close>

fun lossy_amqp :: "('j mem_broker, 'j) amqp_client" where
  "lossy_amqp (BasicPublish ex rk p ct dm) q = (Inr (), q)"
| "lossy_amqp m q = mem_amqp m q"

interpretation lossy_amqp: amqp_broker lossy_amqp mb_messages mem_routes
proof unfold_locales
  fix m :: "'j amqp_method" and q :: "'j mem_broker" and n
  show "mb_messages (snd (lossy_amqp m q)) n = mb_messages q n" if "\<And>ex rk p ct dm. m \<noteq> BasicPublish ex rk p ct dm"
    by (cases m) (use that mem_amqp.no_publish [of m q n] in simp_all)
  show "(\<And>k ex rk. m \<noteq> QueueBind k ex rk) \<Longrightarrow> mem_routes (snd (lossy_amqp m q)) = mem_routes q"
    using mem_amqp.routes_kept [of m q] by (cases m) simp_all
qed (auto simp: mem_routes_def split: if_splits)

section \<open>Properties\<close>

text \<open>
  C22: The job queue. After connecting, which may be to a broker where everything is declared and
  messages wait, the jobs published reach \<^verbatim>\<open>backup_jobs\<close> at most once each, in the order in which
  they were published, as texts that read back as the jobs; what was queued stays in front, and no
  queue the exchange does not route to receives anything. As publishing is not confirmed, some may
  be missing, whatever the outcome of their calls.
\<close>

theorem published_jobs_arrive_in_order:
  assumes "amqp_broker call queued routes" and "codec_ok json"
    and "connect_rabbitmq call url q = (Inr (), q1)"
    and "publish_all json call jobs q1 = Some q2"
  shows "\<exists>arrived. subseq arrived jobs \<and>
    map (of_json json) (queued q2 QUEUE_NAME) = map (of_json json) (queued q QUEUE_NAME) @ map Inr arrived \<and>
    (\<forall>n. n \<noteq> QUEUE_NAME \<longrightarrow> \<not> routes q EXCHANGE_NAME ROUTING_KEY n \<longrightarrow>
      map (of_json json) (queued q2 n) = map (of_json json) (queued q n))"
proof -
  note broker = assms(1)
  have r: "routes q1 ex rk k \<longleftrightarrow>
      routes q ex rk k \<or> ex = EXCHANGE_NAME \<and> rk = ROUTING_KEY \<and> k = QUEUE_NAME" for ex rk k
    using amqp_broker.connect_routes [OF broker, of url q ex rk k] assms(3) by simp
  have m: "queued q1 k = queued q k" for k
    using amqp_broker.connect_keeps_messages [OF broker, of url q k] assms(3) by simp
  have "map (of_json json) (queued q2 n) = map (of_json json) (queued q n)"
    if "n \<noteq> QUEUE_NAME" "\<not> routes q EXCHANGE_NAME ROUTING_KEY n" for n
    using amqp_broker.publish_all_queued [OF broker assms(2,4), of n] that r m by auto
  with amqp_broker.publish_all_queued [OF broker assms(2,4), of QUEUE_NAME] m show ?thesis
    by auto
qed

definition demo_job_json :: "(backup_job, backup_job) codec" where
  "demo_job_json = \<lparr> to_json = Inr, of_json = Inr \<rparr>"

lemma codec_ok_demo_job [simp]: "codec_ok demo_job_json"
  by (simp add: codec_ok_def demo_job_json_def)

definition demo_job :: backup_job where
  "demo_job = \<lparr> j_backup_id = 5, j_tenant_id = 1, j_source_path = ''/d'', j_encryption_enabled = False \<rparr>"

lemma published_jobs_arrive_in_order_witness:
  "\<exists>q1 q2 arrived. connect_rabbitmq mem_amqp ''amqp'' (empty_broker :: backup_job mem_broker) = (Inr (), q1) \<and>
     publish_all demo_job_json mem_amqp [demo_job, demo_job] q1 = Some q2 \<and>
     subseq arrived [demo_job, demo_job] \<and> map (of_json demo_job_json) (mb_messages q2 QUEUE_NAME) = map Inr arrived"
proof -
  obtain q1 where c: "connect_rabbitmq mem_amqp ''amqp'' (empty_broker :: backup_job mem_broker) = (Inr (), q1)"
    by (simp add: connect_rabbitmq_def empty_broker_def)
  moreover from c obtain q2 where p: "publish_all demo_job_json mem_amqp [demo_job, demo_job] q1 = Some q2"
    by (fastforce simp: connect_rabbitmq_def empty_broker_def publish_job_def demo_job_json_def)
  moreover have "mb_messages (empty_broker :: backup_job mem_broker) QUEUE_NAME = []"
    by (simp add: empty_broker_def)
  ultimately show ?thesis
    using published_jobs_arrive_in_order [OF mem_amqp.amqp_broker_axioms codec_ok_demo_job c p] by fastforce
qed

end
