(* ===== verification/Entropy.thy ===== *)
theory Entropy
  imports Rust_Std Complex_Main
begin

text \<open>
  \<^verbatim>\<open>crates/backup-common/src/ffi/c_src/entropy.c\<close> and its Rust wrapper \<^verbatim>\<open>ffi.rs\<close>: the byte
  histogram, the Shannon entropy computed from it and the classification of the result. The
  counters are 64 bit words (\<^verbatim>\<open>unsigned long\<close>). The operations of \<^verbatim>\<open>double\<close> and of the C library's
  \<^verbatim>\<open>log\<close> are a parameter, a record of functions on an arbitrary carrier, so the definitions are
  the code's whatever the rounding; \<^verbatim>\<open>exact_f64\<close> instantiates it with the real numbers, where the
  result is the textbook entropy and obeys its bounds.
\<close>

section \<open>Floating point as a parameter\<close>

record 'f f64_ops =
  f_of_u64 :: "u64 \<Rightarrow> 'f"
  f_lit :: "rat \<Rightarrow> 'f"
  f_div :: "'f \<Rightarrow> 'f \<Rightarrow> 'f"
  f_mul :: "'f \<Rightarrow> 'f \<Rightarrow> 'f"
  f_sub :: "'f \<Rightarrow> 'f \<Rightarrow> 'f"
  f_log :: "'f \<Rightarrow> 'f"
  f_less :: "'f \<Rightarrow> 'f \<Rightarrow> bool"

definition exact_f64 :: "real f64_ops" where
  "exact_f64 =
     \<lparr> f_of_u64 = (\<lambda>w. real (unat w)), f_lit = real_of_rat, f_div = (/), f_mul = (*),
       f_sub = (-), f_log = ln, f_less = (<) \<rparr>"

section \<open>The C function\<close>

definition freq_step :: "u64 list \<Rightarrow> u8 \<Rightarrow> u64 list" where
  "freq_step freq b = freq[unat b := freq ! unat b + 1]"

definition freq_of :: "u8 list \<Rightarrow> u64 list" where
  "freq_of data = foldl freq_step (replicate 256 0) data"

definition entropy_step :: "'f f64_ops \<Rightarrow> u64 list \<Rightarrow> u64 \<Rightarrow> 'f \<Rightarrow> 'f \<Rightarrow> nat \<Rightarrow> 'f" where
  "entropy_step F freq len log2 entropy i =
     (if 0 < freq ! i then
        let p = f_div F (f_of_u64 F (freq ! i)) (f_of_u64 F len)
        in f_sub F entropy (f_mul F p (f_div F (f_log F p) log2))
      else entropy)"

definition compute_shannon_entropy :: "'f f64_ops \<Rightarrow> u8 list \<Rightarrow> u64 \<Rightarrow> 'f" where
  "compute_shannon_entropy F data len =
     (if len = 0 then f_lit F 0
      else foldl (entropy_step F (freq_of data) len (f_log F (f_lit F 2))) (f_lit F 0) [0..<256])"

text \<open>The safe wrapper of \<^verbatim>\<open>ffi.rs\<close>: the pointer and the length of one slice.\<close>

definition shannon_entropy :: "'f f64_ops \<Rightarrow> u8 list \<Rightarrow> 'f" where
  "shannon_entropy F data =
     (if data = [] then f_lit F 0
      else compute_shannon_entropy F data (word_of_nat (length data)))"

section \<open>Classification\<close>

datatype entropy_level = Low | Normal | High | VeryHigh

definition classify :: "'f f64_ops \<Rightarrow> 'f \<Rightarrow> entropy_level" where
  "classify F e =
     (if f_less F e (f_lit F 4) then Low
      else if f_less F e (f_lit F (13 / 2)) then Normal
      else if f_less F e (f_lit F (15 / 2)) then High
      else VeryHigh)"

fun is_suspicious :: "entropy_level \<Rightarrow> bool" where
  "is_suspicious VeryHigh = True"
| "is_suspicious _ = False"

text \<open>The bytes of a string, and the synthetic sample both callers build from a path.\<close>

definition str_bytes :: "string \<Rightarrow> u8 list" where
  "str_bytes s = map of_char s"

definition synthetic_data :: "nat \<Rightarrow> string \<Rightarrow> u8 list" where
  "synthetic_data n path = cycle_take n (str_bytes path)"

section \<open>The order of the levels\<close>

fun level_rank :: "entropy_level \<Rightarrow> nat" where
  "level_rank Low = 0"
| "level_rank Normal = 1"
| "level_rank High = 2"
| "level_rank VeryHigh = 3"

instantiation entropy_level :: linorder
begin
definition less_eq_entropy_level :: "entropy_level \<Rightarrow> entropy_level \<Rightarrow> bool" where
  "less_eq_entropy_level a b = (level_rank a \<le> level_rank b)"
definition less_entropy_level :: "entropy_level \<Rightarrow> entropy_level \<Rightarrow> bool" where
  "less_entropy_level a b = (level_rank a < level_rank b)"
instance
proof
  fix x y :: entropy_level
  show "x \<le> y \<Longrightarrow> y \<le> x \<Longrightarrow> x = y"
    by (cases x; cases y) (simp_all add: less_eq_entropy_level_def)
qed (auto simp: less_eq_entropy_level_def less_entropy_level_def)
end

lemma is_suspicious_iff: "is_suspicious l \<longleftrightarrow> l = VeryHigh"
  by (cases l) simp_all

lemma suspicious_mono: "is_suspicious a \<Longrightarrow> a \<le> b \<Longrightarrow> is_suspicious b"
  by (cases a; cases b) (simp_all add: less_eq_entropy_level_def)

section \<open>The histogram\<close>

lemma length_freq_step [simp]: "length (freq_step f b) = length f"
  by (simp add: freq_step_def)

lemma length_freq_foldl [simp]: "length (foldl freq_step f data) = length f"
  by (induction data arbitrary: f) simp_all

lemma u8_lt [simp]: "unat (b :: u8) < 256"
  using unsigned_less [of b] by simp

lemma freq_step_nth:
  "length f = 256 \<Longrightarrow> freq_step f b ! unat (c :: u8) = (if b = c then f ! unat c + 1 else f ! unat c)"
  by (auto simp: freq_step_def nth_list_update dest: unsigned_word_eqI)

lemma freq_foldl_nth:
  "length f = 256 \<Longrightarrow> foldl freq_step f data ! unat (b :: u8) = f ! unat b + word_of_nat (count_list data b)"
  by (induction data arbitrary: f) (simp_all add: freq_step_nth)

lemma freq_of_nth: "freq_of data ! unat b = word_of_nat (count_list data b)"
  by (simp add: freq_of_def freq_foldl_nth)

lemma unat_freq_of:
  assumes "length data < 2 ^ 64"
  shows "unat (freq_of data ! unat b) = count_list data b"
proof -
  have "count_list data b < 2 ^ 64"
    using assms count_le_length [of data b] by (rule order_le_less_trans [rotated])
  then show ?thesis by (simp add: freq_of_nth)
qed

section \<open>The computation over the reals\<close>

definition byte_prob :: "u8 list \<Rightarrow> u8 \<Rightarrow> real" where
  "byte_prob data b = real (count_list data b) / real (length data)"

definition shannon :: "u8 list \<Rightarrow> real" where
  "shannon data = (\<Sum>b \<in> set data. - byte_prob data b * log 2 (byte_prob data b))"

lemma foldl_minus:
  "foldl (\<lambda>e i. if P i then e - t i else e) (e :: real) xs = e - (\<Sum>i\<leftarrow>xs. if P i then t i else 0)"
  by (induction xs arbitrary: e) auto

lemma sum_over_bytes: "(\<Sum>i\<leftarrow>[0..<256]. g i) = (\<Sum>b \<in> (UNIV :: u8 set). g (unat b) :: real)"
proof -
  have "(\<Sum>i\<leftarrow>[0..<256]. g i) = (\<Sum>i \<in> {0..<256}. g i)"
    by (simp add: sum_list_distinct_conv_sum_set)
  also have "\<dots> = (\<Sum>b \<in> (UNIV :: u8 set). g (unat b))"
  proof (rule sum.reindex_bij_witness [where i = unat and j = "word_of_nat :: nat \<Rightarrow> u8"])
    fix i :: nat
    assume "i \<in> {0..<256}"
    then show "unat (word_of_nat i :: u8) = i" by (simp add: unat_word_of_nat)
    then show "g (unat (word_of_nat i :: u8)) = g i" by simp
  qed simp_all
  finally show ?thesis .
qed

lemma exact_f64_sel [simp]:
  "f_of_u64 exact_f64 w = real (unat w)" "f_lit exact_f64 q = real_of_rat q"
  "f_div exact_f64 = (/)" "f_mul exact_f64 = (*)" "f_sub exact_f64 = (-)"
  "f_log exact_f64 = ln" "f_less exact_f64 = (<)"
  by (simp_all add: exact_f64_def)

lemma entropy_step_exact:
  "entropy_step exact_f64 freq len l =
    (\<lambda>e i. if 0 < freq ! i then e - (real (unat (freq ! i)) / real (unat len)) *
       (ln (real (unat (freq ! i)) / real (unat len)) / l) else e)"
  by (intro ext) (simp add: entropy_step_def Let_def)

lemma shannon_entropy_exact:
  assumes "length data < 2 ^ 64"
  shows "shannon_entropy exact_f64 data = shannon data"
proof (cases "data = []")
  case True
  then show ?thesis by (simp add: shannon_entropy_def shannon_def exact_f64_def)
next
  case False
  define len :: u64 where "len = word_of_nat (length data)"
  have len: "unat len = length data"
    using assms by (simp add: len_def)
  with False have "len \<noteq> 0" by auto
  define t where "t b = byte_prob data b * log 2 (byte_prob data b)" for b
  have pos: "0 < freq_of data ! unat b \<longleftrightarrow> b \<in> set data" for b
    using unat_freq_of [OF assms, of b] count_list_0_iff [of data b]
    by (auto simp: word_less_nat_alt)
  define u where "u i = real (unat (freq_of data ! i)) / real (unat len) *
      (ln (real (unat (freq_of data ! i)) / real (unat len)) / ln 2)" for i
  have u: "u (unat b) = t b" for b
    unfolding u_def t_def byte_prob_def log_def unat_freq_of [OF assms] len ..
  have "compute_shannon_entropy exact_f64 data len =
      foldl (\<lambda>e i. if 0 < freq_of data ! i then e - u i else e) 0 [0..<256]"
    using \<open>len \<noteq> 0\<close> by (simp add: compute_shannon_entropy_def entropy_step_exact u_def cong: if_cong)
  also have "\<dots> = - (\<Sum>b \<in> UNIV. if b \<in> set data then t b else 0)"
    by (simp add: foldl_minus sum_over_bytes pos u cong: if_cong)
  also have "\<dots> = - (\<Sum>b \<in> set data. t b)"
    by (simp add: sum.If_cases)
  also have "\<dots> = shannon data"
    by (simp add: shannon_def t_def sum_negf)
  finally show ?thesis
    using False by (simp add: shannon_entropy_def len_def)
qed


section \<open>Bounds of the entropy\<close>

lemma byte_prob_sum: "data \<noteq> [] \<Longrightarrow> (\<Sum>b \<in> set data. byte_prob data b) = 1"
proof -
  assume "data \<noteq> []"
  have "(\<Sum>b \<in> set data. real (count_list data b)) = real (length data)"
    using sum_count_set [of data "set data"] by (simp flip: of_nat_sum)
  then show ?thesis
    using \<open>data \<noteq> []\<close> by (simp add: byte_prob_def flip: sum_divide_distrib)
qed

lemma byte_prob_pos: "b \<in> set data \<Longrightarrow> 0 < byte_prob data b"
  using count_list_0_iff [of data b] by (cases data) (auto simp: byte_prob_def)

lemma byte_prob_le_1: "byte_prob data b \<le> 1"
  using count_le_length [of data b] by (simp add: byte_prob_def divide_le_eq_1)

lemma shannon_nonneg: "0 \<le> shannon data"
  unfolding shannon_def
proof (rule sum_nonneg)
  fix b assume "b \<in> set data"
  then have "log 2 (byte_prob data b) \<le> 0"
    using byte_prob_pos byte_prob_le_1 by (simp add: log_le_zero_cancel_iff)
  with \<open>b \<in> set data\<close> show "0 \<le> - byte_prob data b * log 2 (byte_prob data b)"
    using byte_prob_pos [of b data] by (simp add: mult_nonneg_nonpos)
qed

text \<open>Gibbs' inequality against the uniform distribution on the bytes that occur.\<close>

lemma shannon_le_log_card:
  assumes "data \<noteq> []"
  shows "shannon data \<le> log 2 (real (card (set data)))"
proof -
  define k where "k = real (card (set data))"
  have k: "0 < k" using assms by (simp add: k_def card_gt_0_iff)
  have each: "- p * log 2 p \<le> p * log 2 k + (1 / k - p) / ln 2" if "0 < p" for p
  proof -
    have "ln (1 / (p * k)) \<le> 1 / (p * k) - 1"
      using that k by (intro ln_le_minus_one) simp
    then have "- ln p - ln k \<le> 1 / (p * k) - 1"
      using that k by (simp add: ln_div ln_mult)
    then have "p * (- ln p - ln k) \<le> p * (1 / (p * k) - 1)"
      using that by (simp add: mult_left_mono)
    then have "- p * ln p \<le> p * ln k + (1 / k - p)"
      using that k by (simp add: algebra_simps)
    then have "- p * ln p / ln 2 \<le> (p * ln k + (1 / k - p)) / ln 2"
      by (rule divide_right_mono) simp
    then show ?thesis by (simp add: log_def add_divide_distrib)
  qed
  have "shannon data \<le> (\<Sum>b \<in> set data. byte_prob data b * log 2 k + (1 / k - byte_prob data b) / ln 2)"
    unfolding shannon_def by (intro sum_mono each byte_prob_pos)
  also have "\<dots> = (\<Sum>b \<in> set data. byte_prob data b) * log 2 k +
      (real (card (set data)) / k - (\<Sum>b \<in> set data. byte_prob data b)) / ln 2"
    by (simp add: sum.distrib sum_subtractf flip: sum_distrib_right sum_divide_distrib)
  also have "\<dots> = log 2 k"
    using k by (simp add: byte_prob_sum [OF assms]) (simp add: k_def)
  finally show ?thesis by (simp add: k_def)
qed

lemma card_bytes: "card (set (data :: u8 list)) \<le> 256"
proof -
  have "card (set data) \<le> card (UNIV :: u8 set)" by (intro card_mono) simp_all
  then show ?thesis by (simp add: card_word)
qed

lemma shannon_le_8: "shannon data \<le> 8"
proof (cases "data = []")
  case True
  then show ?thesis by (simp add: shannon_def)
next
  case False
  have "log 2 (real (card (set data))) \<le> log 2 256"
    using False card_bytes [of data] by (simp add: card_gt_0_iff)
  also have "\<dots> = log 2 (2 ^ 8)" by simp
  also have "\<dots> = 8" by (simp only: log_pow_cancel)
  finally show ?thesis using shannon_le_log_card [OF False] by simp
qed

text \<open>The bound is reached: bytes that occur equally often.\<close>

lemma shannon_uniform:
  assumes "data \<noteq> []" and "\<And>b. b \<in> set data \<Longrightarrow> count_list data b = m"
  shows "shannon data = log 2 (real (card (set data)))"
proof -
  have "length data = card (set data) * m"
    using sum_count_set [of data "set data"] assms(2) by simp
  moreover have "0 < length data" using assms(1) by simp
  ultimately have m: "0 < m" "0 < card (set data)" "length data = card (set data) * m"
    by (simp_all add: card_gt_0_iff)
  then have "byte_prob data b = 1 / real (card (set data))" if "b \<in> set data" for b
    using assms(2) [OF that] by (simp add: byte_prob_def)
  then show ?thesis
    using m assms(1) by (simp add: shannon_def log_divide)
qed

lemma shannon_zero_iff: "shannon data = 0 \<longleftrightarrow> card (set data) \<le> 1"
proof
  assume z: "shannon data = 0"
  have t: "0 \<le> - byte_prob data b * log 2 (byte_prob data b)" if "b \<in> set data" for b
    using that byte_prob_pos [of b data] byte_prob_le_1 [of data b]
    by (simp add: mult_nonneg_nonpos log_le_zero_cancel_iff)
  show "card (set data) \<le> 1"
  proof (cases data)
    case (Cons a as)
    have "byte_prob data b = 1" if "b \<in> set data" for b
    proof -
      have "- byte_prob data b * log 2 (byte_prob data b) = 0"
        using z t that unfolding shannon_def by (subst (asm) sum_nonneg_eq_0_iff) auto
      then show ?thesis
        using byte_prob_pos [OF that] by (auto simp: log_def)
    qed
    then have "(\<Sum>b \<in> set data. (1 :: real)) = 1"
      using byte_prob_sum [of data] Cons by simp
    then show ?thesis by simp
  qed simp
next
  assume "card (set data) \<le> 1"
  then show "shannon data = 0"
    using shannon_nonneg [of data] shannon_le_log_card [of data]
    by (cases "data = []") (auto simp: shannon_def card_gt_0_iff le_Suc_eq)
qed


section \<open>Classification over the reals\<close>

lemma of_rat_lits [simp]: "real_of_rat (13 / 2) = 13 / 2" "real_of_rat (15 / 2) = 15 / 2"
  by (simp_all add: of_rat_divide)

lemma classify_exact:
  "classify exact_f64 e = (if e < 4 then Low else if e < 13 / 2 then Normal else if e < 15 / 2 then High else VeryHigh)"
  by (simp add: classify_def)

lemma classify_exact_mono: "e \<le> e' \<Longrightarrow> classify exact_f64 e \<le> classify exact_f64 e'"
  by (auto simp: classify_exact less_eq_entropy_level_def)

lemma suspicious_exact: "is_suspicious (classify exact_f64 e) \<longleftrightarrow> 15 / 2 \<le> e"
  by (auto simp: classify_exact)

lemma log2_181: "log 2 181 < 15 / 2"
proof -
  have "2 * log 2 181 = log 2 (181 ^ 2)" by (subst log_nat_power) simp_all
  also have "\<dots> < log 2 (2 ^ 15)" by (subst log_less_cancel_iff) simp_all
  also have "\<dots> = 15" by (simp only: log_pow_cancel)
  finally show ?thesis by simp
qed

lemma shannon_few_bytes: "card (set data) \<le> 181 \<Longrightarrow> shannon data < 15 / 2"
proof (cases "data = []")
  case True
  then show ?thesis by (simp add: shannon_def)
next
  case False
  assume "card (set data) \<le> 181"
  then have "log 2 (real (card (set data))) \<le> log 2 181"
    using False by (simp add: card_gt_0_iff)
  then show ?thesis
    using shannon_le_log_card [OF False] log2_181 by linarith
qed

lemma length_synthetic: "length (synthetic_data n path) = (if path = [] then 0 else n)"
  by (simp add: synthetic_data_def length_cycle_take str_bytes_def)

lemma set_synthetic: "set (synthetic_data n path) \<subseteq> of_char ` set path"
  using set_cycle_take [of n "str_bytes path"] by (simp add: synthetic_data_def str_bytes_def)

lemma card_synthetic: "card (set (synthetic_data n path)) \<le> card (set path)"
  using card_mono [OF _ set_synthetic] card_image_le [of "set path" "of_char :: char \<Rightarrow> u8"]
  by (meson List.finite_set finite_imageI order_trans)

section \<open>Properties\<close>

text \<open>
  C27: on any slice shorter than \<open>2 ^ 64\<close> bytes the C histogram never wraps, so every counter is
  the number of occurrences of its byte, and over exact arithmetic the function returns the Shannon
  entropy of the byte distribution, in bits.
\<close>

theorem entropy_computes_shannon:
  assumes "length data < 2 ^ 64"
  shows "(\<forall>b. unat (freq_of data ! unat b) = count_list data b) \<and>
    shannon_entropy exact_f64 data = (\<Sum>b \<in> set data.
      - (real (count_list data b) / real (length data)) * log 2 (real (count_list data b) / real (length data)))"
  using unat_freq_of [OF assms] shannon_entropy_exact [OF assms]
  by (simp add: shannon_def byte_prob_def)

theorem entropy_computes_shannon_witness: "shannon_entropy exact_f64 [7, 9] = 1"
proof -
  have "shannon_entropy exact_f64 [7, 9] = (\<Sum>b \<in> set [7, 9 :: u8].
      - (real (count_list [7, 9] b) / real (length [7, 9 :: u8])) *
        log 2 (real (count_list [7, 9] b) / real (length [7, 9 :: u8])))"
    using entropy_computes_shannon [of "[7, 9]"] by simp
  then show ?thesis by (simp add: log_divide)
qed

text \<open>
  C28: the entropy lies between 0 and the logarithm of the number of distinct bytes, hence never
  above 8; it is 0 exactly when at most one byte value occurs, and the upper bound is reached when
  all occurring bytes occur equally often.
\<close>

theorem entropy_bounds:
  assumes "length data < 2 ^ 64" and "data \<noteq> []"
  shows "0 \<le> shannon_entropy exact_f64 data \<and>
    shannon_entropy exact_f64 data \<le> log 2 (real (card (set data))) \<and>
    shannon_entropy exact_f64 data \<le> 8 \<and>
    (shannon_entropy exact_f64 data = 0 \<longleftrightarrow> card (set data) = 1) \<and>
    ((\<forall>b \<in> set data. count_list data b = m) \<longrightarrow>
      shannon_entropy exact_f64 data = log 2 (real (card (set data))))"
proof -
  have "0 < card (set data)" using assms(2) by (simp add: card_gt_0_iff)
  then have "shannon data = 0 \<longleftrightarrow> card (set data) = 1"
    using shannon_zero_iff [of data] by auto
  then show ?thesis
    using assms shannon_nonneg shannon_le_log_card shannon_le_8 shannon_uniform
    by (simp add: shannon_entropy_exact)
qed

theorem entropy_bounds_witness: "shannon_entropy exact_f64 [1, 2, 3, 4] = 2"
proof -
  have "shannon_entropy exact_f64 [1, 2, 3, 4] = log 2 (real (card (set [1, 2, 3, 4 :: u8])))"
    using entropy_bounds [of "[1, 2, 3, 4]" 1] by simp
  also have "\<dots> = log 2 (2 ^ 2)" by simp
  also have "\<dots> = 2" by (simp only: log_pow_cancel)
  finally show ?thesis .
qed

text \<open>
  the levels follow the entropy: a larger entropy never has a lower level, the suspicious
  flag is set exactly from 7.5 bits on, and a value that compares below nothing (a NaN) is
  classified as the highest level, in any arithmetic.
\<close>

theorem classify_thresholds:
  "(e \<le> e' \<longrightarrow> classify exact_f64 e \<le> classify exact_f64 e') \<and>
   (is_suspicious (classify exact_f64 e) \<longleftrightarrow> 15 / 2 \<le> e) \<and>
   ((\<forall>y. \<not> f_less F x y) \<longrightarrow> is_suspicious (classify F x))"
  using classify_exact_mono suspicious_exact by (simp add: classify_def)

theorem classify_thresholds_witness:
  "is_suspicious (classify exact_f64 8) \<and>
   is_suspicious (classify (exact_f64\<lparr>f_less := \<lambda>x y. False\<rparr>) 0)"
  using classify_thresholds [of 8 8 "exact_f64\<lparr>f_less := \<lambda>x y. False\<rparr>" 0] by simp

text \<open>
  the analysis looks at the backup's path, and a path with at most 181 distinct bytes is never
  reported suspicious, however long the sample built from it.
\<close>

theorem short_path_never_suspicious:
  assumes "card (set path) \<le> 181" and "n < 2 ^ 64"
  shows "\<not> is_suspicious (classify exact_f64 (shannon_entropy exact_f64 (synthetic_data n path)))"
proof -
  have "length (synthetic_data n path) < 2 ^ 64"
    using assms(2) by (simp add: length_synthetic)
  moreover have "card (set (synthetic_data n path)) \<le> 181"
    using card_synthetic assms(1) by (rule order_trans)
  ultimately show ?thesis
    using shannon_few_bytes by (simp add: suspicious_exact shannon_entropy_exact not_le)
qed

theorem short_path_never_suspicious_witness:
  "\<not> is_suspicious (classify exact_f64 (shannon_entropy exact_f64 (synthetic_data 4096 ''/data/important'')))"
proof (rule short_path_never_suspicious)
  have "card (set ''/data/important'') \<le> length ''/data/important''" by (rule card_length)
  also have "\<dots> \<le> 181" by simp
  finally show "card (set ''/data/important'') \<le> 181" .
qed simp

end
