(* ===== verification/App.thy ===== *)
theory App
  imports Cache_Layer Rate_Limit Auth Jobs Entropy
begin

text \<open>
  \<^verbatim>\<open>crates/backup-service/src/state.rs\<close>: the state all handlers share, and the third-party
  libraries they call, gathered in one record. A handler takes the shared state and gives it back;
  what varies from request to request (clock, generated key, fate of its database statements) is
  its \<^verbatim>\<open>request context\<close>.
\<close>

record ('r, 'j, 'q, 'f) libs =
  lb_cache :: "('r, 'j) cache_libs"
  lb_amqp :: "('q, 'j) amqp_client"
  lb_job_json :: "(backup_job, 'j) codec"
  lb_f64 :: "'f f64_ops"
  lb_auth :: auth_libs
  lb_order :: "i64 \<Rightarrow> i64 \<Rightarrow> table \<Rightarrow> table"

text \<open>
  \<^verbatim>\<open>AppState\<close>: the database behind the pool, the Redis connection of the cache layer, the shared
  configuration, the limiter's counters and the AMQP channel.
\<close>

record ('r, 'q) app_state =
  a_db :: table
  a_cache :: "'r option"
  a_config :: app_config
  a_counters :: counters
  a_amqp :: "'q option"

record req_ctx =
  cx_now :: micros
  cx_new_id :: uuid
  cx_link :: link
  cx_link2 :: link
  cx_join :: "string option"

text \<open>\<^verbatim>\<open>AppState::new\<close> and \<^verbatim>\<open>with_config_mut\<close>.\<close>

definition app_new :: "table \<Rightarrow> 'r option \<Rightarrow> app_config \<Rightarrow> 'q option \<Rightarrow> ('r, 'q) app_state" where
  "app_new db cache config channel =
     \<lparr> a_db = db, a_cache = cache, a_config = config, a_counters = Map.empty, a_amqp = channel \<rparr>"

definition with_config_mut :: "(app_config \<Rightarrow> app_config) \<Rightarrow> ('r, 'q) app_state \<Rightarrow> ('r, 'q) app_state" where
  "with_config_mut f a = a\<lparr> a_config := f (a_config a) \<rparr>"

text \<open>One statement on the pool.\<close>

definition db_exec :: "link \<Rightarrow> 'a stmt \<Rightarrow> ('r, 'q) app_state \<Rightarrow> (pg_error + 'a) \<times> ('r, 'q) app_state" where
  "db_exec l run a = (let (r, t') = pg_exec l run (a_db a) in (r, a\<lparr> a_db := t' \<rparr>))"

lemma db_exec_eq: "db_exec l run a = (fst (pg_exec l run (a_db a)), a\<lparr> a_db := snd (pg_exec l run (a_db a)) \<rparr>)"
  by (simp add: db_exec_def split: prod.splits)

section \<open>A reference instance\<close>

text \<open>The instance the properties are run on: reference libraries, an empty database and defaults.\<close>

definition demo_doc_of :: "backup_job \<Rightarrow> doc" where
  "demo_doc_of j =
     RowDoc \<lparr> b_id = j_backup_id j, b_tenant_id = j_tenant_id j, b_source_path = j_source_path j,
             b_size_bytes = 0, b_status = [], b_encryption_enabled = j_encryption_enabled j,
             b_created_at = 0, b_updated_at = 0 \<rparr>"

definition demo_job_codec :: "(backup_job, doc) codec" where
  "demo_job_codec =
     \<lparr> to_json = (\<lambda>j. Inr (demo_doc_of j)),
       of_json = (\<lambda>d. case d of
         RowDoc b \<Rightarrow> Inr \<lparr> j_backup_id = b_id b, j_tenant_id = b_tenant_id b,
                          j_source_path = b_source_path b, j_encryption_enabled = b_encryption_enabled b \<rparr>
       | ListDoc xs n \<Rightarrow> Inl ''invalid type'') \<rparr>"

lemma codec_ok_demo [simp]: "codec_ok demo_job_codec"
  by (simp add: codec_ok_def demo_job_codec_def demo_doc_of_def)

definition demo_libs :: "(doc mem_store, doc, doc mem_broker, real) libs" where
  "demo_libs =
     \<lparr> lb_cache = mem_libs, lb_amqp = mem_amqp, lb_job_json = demo_job_codec, lb_f64 = exact_f64,
       lb_auth = demo_jwt, lb_order = (\<lambda>lim off. order_created_desc) \<rparr>"

lemma demo_libs_sel [simp]:
  "lb_cache demo_libs = mem_libs" "lb_amqp demo_libs = mem_amqp" "lb_job_json demo_libs = demo_job_codec"
  "lb_f64 demo_libs = exact_f64" "lb_auth demo_libs = demo_jwt" "lb_order demo_libs = (\<lambda>lim off. order_created_desc)"
  by (simp_all add: demo_libs_def)

definition demo_app :: "table \<Rightarrow> (doc mem_store, doc mem_broker) app_state" where
  "demo_app t = app_new t (Some empty_store) dev_config None"

lemma demo_app_sel [simp]:
  "a_db (demo_app t) = t" "a_cache (demo_app t) = Some empty_store" "a_config (demo_app t) = dev_config"
  "a_counters (demo_app t) = Map.empty" "a_amqp (demo_app t) = None"
  by (simp_all add: demo_app_def app_new_def)

definition demo_cx :: "micros \<Rightarrow> req_ctx" where
  "demo_cx now = \<lparr> cx_now = now, cx_new_id = 5, cx_link = Up, cx_link2 = Up, cx_join = None \<rparr>"

lemma demo_cx_sel [simp]:
  "cx_now (demo_cx n) = n" "cx_new_id (demo_cx n) = 5" "cx_link (demo_cx n) = Up"
  "cx_link2 (demo_cx n) = Up" "cx_join (demo_cx n) = None"
  by (simp_all add: demo_cx_def)

definition demo_row :: "uuid \<Rightarrow> backup" where
  "demo_row i = new_row i 100 demo_tenant ''/data'' False"

lemma demo_row_sel [simp]:
  "b_id (demo_row i) = i" "b_tenant_id (demo_row i) = demo_tenant" "b_status (demo_row i) = ''pending''"
  "b_source_path (demo_row i) = ''/data''" "b_size_bytes (demo_row i) = 0" "b_created_at (demo_row i) = 100"
  by (simp_all add: demo_row_def new_row_def)

lemma demo_claims_sel [simp]: "cl_tenant_id (demo_claims u n) = demo_tenant"
  by (simp add: demo_claims_def)

lemma table_ok_demo [simp]: "table_ok []" "table_ok [demo_row i]"
  by (simp_all add: table_ok_def)

end
