(* ===== verification/Handlers.thy ===== *)
theory Handlers
  imports App
begin

text \<open>
  \<^verbatim>\<open>crates/backup-service/src/handlers/backups.rs\<close> and \<^verbatim>\<open>handlers/health.rs\<close>: one definition per
  handler, each from the shared state to a response or an application error and the state it
  leaves, in the order the code runs its statements, cache calls and broker calls.
\<close>

type_synonym 'f handled = "app_error + 'f http_reply"

section \<open>Validation\<close>

definition validate_source_path :: "string \<Rightarrow> app_error + unit" where
  "validate_source_path path =
     (if path = [] then Inl (Validation ''source_path cannot be empty'')
      else if \<not> starts_with ''/'' path then Inl (Validation ''source_path must be absolute'')
      else if str_contains ''..'' path then Inl (Validation ''path traversal not allowed'')
      else Inr ())"

definition not_found :: "('r, 'j, 'q, 'f) libs \<Rightarrow> uuid \<Rightarrow> app_error" where
  "not_found L i = NotFound (''backup '' @ uu_fmt (uuids (lb_cache L)) i)"

section \<open>Writing\<close>

definition create_backup ::
    "('r, 'j, 'q, 'f) libs \<Rightarrow> req_ctx \<Rightarrow> claims \<Rightarrow> create_request \<Rightarrow> ('r, 'q) app_state \<Rightarrow>
     'f handled \<times> ('r, 'q) app_state" where
  "create_backup L cx claims req a =
     (case validate_source_path (cr_source_path req) of
        Inl e \<Rightarrow> (Inl e, a)
      | Inr _ \<Rightarrow>
     (case db_exec (cx_link cx)
             (sql_insert (cx_new_id cx) (cx_now cx) (cl_tenant_id claims) (cr_source_path req)
                (cr_encryption_enabled req)) a of
        (Inl e, a) \<Rightarrow> (Inl (Database e), a)
      | (Inr b, a) \<Rightarrow>
          (Inr (reply 201 (BackupBody (response_of b))),
           a\<lparr> a_cache := cache_invalidate_tenant_backups (lb_cache L) (a_cache a) (cl_tenant_id claims) \<rparr>)))"

definition update_backup ::
    "('r, 'j, 'q, 'f) libs \<Rightarrow> req_ctx \<Rightarrow> claims \<Rightarrow> uuid \<Rightarrow> update_request \<Rightarrow> ('r, 'q) app_state \<Rightarrow>
     'f handled \<times> ('r, 'q) app_state" where
  "update_backup L cx claims i req a =
     (let status = map_option status_fmt (ur_status req)
      in (case db_exec (cx_link cx)
                 (sql_update i (cl_tenant_id claims) status (ur_size_bytes req) (cx_now cx)) a of
            (Inl e, a) \<Rightarrow> (Inl (Database e), a)
          | (Inr None, a) \<Rightarrow> (Inl (not_found L i), a)
          | (Inr (Some b), a) \<Rightarrow>
              (let a = a\<lparr> a_cache := cache_invalidate_backup (lb_cache L) (a_cache a) i \<rparr>;
                   a = a\<lparr> a_cache := cache_invalidate_tenant_backups (lb_cache L) (a_cache a) (cl_tenant_id claims) \<rparr>
               in (Inr (reply 200 (BackupBody (response_of b))), a))))"

definition delete_backup ::
    "('r, 'j, 'q, 'f) libs \<Rightarrow> req_ctx \<Rightarrow> claims \<Rightarrow> uuid \<Rightarrow> ('r, 'q) app_state \<Rightarrow>
     'f handled \<times> ('r, 'q) app_state" where
  "delete_backup L cx claims i a =
     (case db_exec (cx_link cx) (sql_delete i (cl_tenant_id claims)) a of
        (Inl e, a) \<Rightarrow> (Inl (Database e), a)
      | (Inr affected, a) \<Rightarrow>
          if affected = 0 then (Inl (not_found L i), a)
          else
            (let a = a\<lparr> a_cache := cache_invalidate_backup (lb_cache L) (a_cache a) i \<rparr>;
                 a = a\<lparr> a_cache := cache_invalidate_tenant_backups (lb_cache L) (a_cache a) (cl_tenant_id claims) \<rparr>
             in (Inr (reply 204 NoBody), a)))"

section \<open>Reading\<close>

text \<open>The select with which four handlers begin.\<close>

definition fetch_owned ::
    "('r, 'j, 'q, 'f) libs \<Rightarrow> req_ctx \<Rightarrow> claims \<Rightarrow> uuid \<Rightarrow> ('r, 'q) app_state \<Rightarrow>
     (app_error + backup) \<times> ('r, 'q) app_state" where
  "fetch_owned L cx claims i a =
     (case db_exec (cx_link cx) (sql_select i (cl_tenant_id claims)) a of
        (Inl e, a) \<Rightarrow> (Inl (Database e), a)
      | (Inr None, a) \<Rightarrow> (Inl (not_found L i), a)
      | (Inr (Some b), a) \<Rightarrow> (Inr b, a))"

definition get_backup ::
    "('r, 'j, 'q, 'f) libs \<Rightarrow> req_ctx \<Rightarrow> claims \<Rightarrow> uuid \<Rightarrow> ('r, 'q) app_state \<Rightarrow>
     'f handled \<times> ('r, 'q) app_state" where
  "get_backup L cx claims i a =
     (let miss =
        (case fetch_owned L cx claims i a of
           (Inl e, a) \<Rightarrow> (Inl e, a)
         | (Inr b, a) \<Rightarrow>
             (Inr (reply 200 (BackupBody (response_of b))),
              a\<lparr> a_cache := cache_set_backup (lb_cache L) (Some (a_config a)) (a_cache a) b \<rparr>))
      in (case cache_get_backup (lb_cache L) (a_cache a) i of
            Some cached \<Rightarrow>
              if b_tenant_id cached = cl_tenant_id claims
              then (Inr (reply 200 (BackupBody (response_of cached))), a)
              else miss
          | None \<Rightarrow> miss))"

text \<open>The two statements of a list request, the page and the count.\<close>

definition fetch_page ::
    "('r, 'j, 'q, 'f) libs \<Rightarrow> req_ctx \<Rightarrow> claims \<Rightarrow> string option \<Rightarrow> i64 \<Rightarrow> i64 \<Rightarrow> ('r, 'q) app_state \<Rightarrow>
     (app_error + backup list \<times> i64) \<times> ('r, 'q) app_state" where
  "fetch_page L cx claims status limit offset a =
     (case db_exec (cx_link cx) (sql_page (lb_order L) (cl_tenant_id claims) status limit offset) a of
        (Inl e, a) \<Rightarrow> (Inl (Database e), a)
      | (Inr items, a) \<Rightarrow>
          (case db_exec (cx_link2 cx) (sql_count (cl_tenant_id claims) status) a of
             (Inl e, a) \<Rightarrow> (Inl (Database e), a)
           | (Inr tot, a) \<Rightarrow> (Inr (items, tot), a)))"

definition list_reply :: "backup list \<Rightarrow> i64 \<Rightarrow> i64 \<Rightarrow> i64 \<Rightarrow> 'f http_reply" where
  "list_reply items tot offset limit =
     reply 200 (ListBody \<lparr> lr_items = map response_of items, lr_total = tot, lr_offset = offset, lr_limit = limit \<rparr>)"

text \<open>The two clamped parameters, and whether the request is the one whose answer is cached.\<close>

definition list_limit :: "list_params \<Rightarrow> i64" where
  "list_limit params = i64_clamp 1 100 (lp_limit params)"

definition list_offset :: "list_params \<Rightarrow> i64" where
  "list_offset params = i64_max 0 (lp_offset params)"

definition use_list_cache :: "app_config \<Rightarrow> list_params \<Rightarrow> bool" where
  "use_list_cache config params =
     (lp_status params = None \<and> list_offset params = cached_list_offset config \<and>
      list_limit params = cached_list_limit config)"

definition list_backups ::
    "('r, 'j, 'q, 'f) libs \<Rightarrow> req_ctx \<Rightarrow> claims \<Rightarrow> list_params \<Rightarrow> ('r, 'q) app_state \<Rightarrow>
     'f handled \<times> ('r, 'q) app_state" where
  "list_backups L cx claims params a =
     (let limit = list_limit params;
          offset = list_offset params;
          use_cache = use_list_cache (a_config a) params;
          cached = (if use_cache
                    then cache_get_tenant_backups (lb_cache L) (a_cache a) (cl_tenant_id claims) else None)
      in (case cached of
            Some (items, tot) \<Rightarrow> (Inr (list_reply items tot offset limit), a)
          | None \<Rightarrow>
              (case fetch_page L cx claims (lp_status params) limit offset a of
                 (Inl e, a) \<Rightarrow> (Inl e, a)
               | (Inr (items, tot), a) \<Rightarrow>
                   (Inr (list_reply items tot offset limit),
                    if use_cache
                    then a\<lparr> a_cache := cache_set_tenant_backups (lb_cache L) (Some (a_config a)) (a_cache a)
                              (cl_tenant_id claims) items tot \<rparr>
                    else a))))"

section \<open>Analysis and processing\<close>

text \<open>\<open>cx_join\<close> is the error of the blocking task, when it fails.\<close>

definition analyze_backup ::
    "('r, 'j, 'q, 'f) libs \<Rightarrow> req_ctx \<Rightarrow> claims \<Rightarrow> uuid \<Rightarrow> ('r, 'q) app_state \<Rightarrow>
     'f handled \<times> ('r, 'q) app_state" where
  "analyze_backup L cx claims i a =
     (case fetch_owned L cx claims i a of
        (Inl e, a) \<Rightarrow> (Inl e, a)
      | (Inr b, a) \<Rightarrow>
          (case cx_join cx of
             Some e \<Rightarrow> (Inl (Internal (''task join error: '' @ e)), a)
           | None \<Rightarrow>
               (let entropy = shannon_entropy (lb_f64 L) (synthetic_data 4096 (b_source_path b))
                in (Inr (reply 200 (BackupBody ((response_of b)\<lparr> r_entropy := Some entropy \<rparr>))), a))))"

definition job_of :: "backup \<Rightarrow> backup_job" where
  "job_of b = \<lparr> j_backup_id = b_id b, j_tenant_id = b_tenant_id b, j_source_path = b_source_path b,
                j_encryption_enabled = b_encryption_enabled b \<rparr>"

text \<open>The result is \<^const>\<open>None\<close> when serialising the job panics.\<close>

definition enqueue_backup ::
    "('r, 'j, 'q, 'f) libs \<Rightarrow> req_ctx \<Rightarrow> claims \<Rightarrow> uuid \<Rightarrow> ('r, 'q) app_state \<Rightarrow>
     'f handled option \<times> ('r, 'q) app_state" where
  "enqueue_backup L cx claims i a =
     (case fetch_owned L cx claims i a of
        (Inl e, a) \<Rightarrow> (Some (Inl e), a)
      | (Inr b, a) \<Rightarrow>
     (case a_amqp a of
        None \<Rightarrow> (Some (Inl (Internal ''RabbitMQ not configured'')), a)
      | Some channel \<Rightarrow>
     (case publish_job (lb_job_json L) (lb_amqp L) (job_of b) channel of
        None \<Rightarrow> (None, a)
      | Some (Inl (AmqpError e), channel) \<Rightarrow>
          (Some (Inl (Internal (''failed to enqueue job: '' @ e))), a\<lparr> a_amqp := Some channel \<rparr>)
      | Some (Inr _, channel) \<Rightarrow>
          (Some (Inr (reply 202 (EnqueuedBody ''backup job enqueued'' i))), a\<lparr> a_amqp := Some channel \<rparr>))))"

section \<open>Probes\<close>

definition health :: "'f http_reply" where
  "health = reply 200 (HealthBody ''ok'')"

definition readiness :: "('r, 'j, 'q, 'f) libs \<Rightarrow> req_ctx \<Rightarrow> ('r, 'q) app_state \<Rightarrow> 'f http_reply" where
  "readiness L cx a =
     (let db_ok = is_ok (fst (pg_exec (cx_link cx) (\<lambda>t. (Inr (), t)) (a_db a)));
          redis_ok = cache_ping (lb_cache L) (a_cache a);
          status = (if db_ok \<and> redis_ok then 200 else 503)
      in reply status (ReadyBody (if status = 200 then ''ready'' else ''not ready'') db_ok redis_ok))"

section \<open>What each handler changes\<close>

lemma validate_source_path_Inr:
  "validate_source_path p = Inr () \<longleftrightarrow> (\<exists>t. p = ''/'' @ t) \<and> \<not> (\<exists>x y. p = x @ ''..'' @ y)"
proof -
  have "starts_with ''/'' p \<longleftrightarrow> (\<exists>t. p = ''/'' @ t)" by (rule starts_with_iff)
  moreover have "str_contains ''..'' p \<longleftrightarrow> (\<exists>x y. p = x @ ''..'' @ y)" by (rule str_contains_iff)
  ultimately show ?thesis unfolding validate_source_path_def by auto
qed

lemma fetch_owned_state [simp]: "snd (fetch_owned L cx claims i a) = a"
  by (auto simp: fetch_owned_def db_exec_eq sel.exec_read_only split: sum.splits option.splits)

lemma fetch_owned_Inr:
  "fst (fetch_owned L cx claims i a) = Inr b \<longleftrightarrow>
   cx_link cx = Up \<and> owned_row i (cl_tenant_id claims) (a_db a) = Some b"
  by (cases "cx_link cx")
    (auto simp: fetch_owned_def db_exec_eq sql_select_def owned_row_def split: option.splits)

lemma fetch_owned_Up:
  "cx_link cx = Up \<Longrightarrow> fetch_owned L cx claims i a =
   ((case owned_row i (cl_tenant_id claims) (a_db a) of None \<Rightarrow> Inl (not_found L i) | Some b \<Rightarrow> Inr b), a)"
  by (auto simp: fetch_owned_def db_exec_eq sql_select_def owned_row_def split: option.splits)

lemma fetch_page_state [simp]: "snd (fetch_page L cx claims st limit off a) = a"
  by (auto simp: fetch_page_def db_exec_eq page.exec_read_only count.exec_read_only split: sum.splits)

lemma fetch_page_Inr:
  "fst (fetch_page L cx claims st limit off a) = Inr (items, tot) \<Longrightarrow>
   items = page limit off (lb_order L limit off (filter (listed (cl_tenant_id claims) st) (a_db a))) \<and>
   tot = word_of_nat (length (filter (listed (cl_tenant_id claims) st) (a_db a)))"
  by (auto simp: fetch_page_def db_exec_eq page.exec_read_only split: sum.splits
      dest!: pg_exec_Inr sql_page_Inr sql_count_Inr)

lemma fetch_page_Up:
  "cx_link cx = Up \<Longrightarrow> cx_link2 cx = Up \<Longrightarrow> 0 \<le> sint limit \<Longrightarrow> 0 \<le> sint off \<Longrightarrow>
   (case st of None \<Rightarrow> True | Some s \<Rightarrow> text_ok s) \<Longrightarrow>
   fetch_page L cx claims st limit off a =
     (Inr (page limit off (lb_order L limit off (filter (listed (cl_tenant_id claims) st) (a_db a))),
           word_of_nat (length (filter (listed (cl_tenant_id claims) st) (a_db a)))), a)"
  by (auto simp: fetch_page_def db_exec_eq sql_page_def sql_count_def split: option.splits)

text \<open>The database after each handler: the effect of its one statement, or none.\<close>

lemma create_db: "a_db (snd (create_backup L cx claims req a)) =
   (if validate_source_path (cr_source_path req) = Inr ()
    then snd (pg_exec (cx_link cx) (sql_insert (cx_new_id cx) (cx_now cx) (cl_tenant_id claims)
           (cr_source_path req) (cr_encryption_enabled req)) (a_db a))
    else a_db a)"
  by (auto simp: create_backup_def db_exec_eq split: sum.splits)

lemma update_db: "a_db (snd (update_backup L cx claims i req a)) =
   snd (pg_exec (cx_link cx) (sql_update i (cl_tenant_id claims) (map_option status_fmt (ur_status req))
     (ur_size_bytes req) (cx_now cx)) (a_db a))"
  by (auto simp: update_backup_def db_exec_eq Let_def split: sum.splits option.splits)

lemma delete_db: "a_db (snd (delete_backup L cx claims i a)) =
   snd (pg_exec (cx_link cx) (sql_delete i (cl_tenant_id claims)) (a_db a))"
  by (auto simp: delete_backup_def db_exec_eq Let_def split: sum.splits)

lemma readers_db [simp]:
  "a_db (snd (get_backup L cx claims i a)) = a_db a"
  "a_db (snd (list_backups L cx claims params a)) = a_db a"
  "a_db (snd (analyze_backup L cx claims i a)) = a_db a"
  "a_db (snd (enqueue_backup L cx claims i a)) = a_db a"
proof -
  obtain r where f: "fetch_owned L cx claims i a = (r, a)"
    using fetch_owned_state by (metis prod.collapse)
  show "a_db (snd (get_backup L cx claims i a)) = a_db a"
    "a_db (snd (analyze_backup L cx claims i a)) = a_db a"
    "a_db (snd (enqueue_backup L cx claims i a)) = a_db a"
    by (auto simp: get_backup_def analyze_backup_def enqueue_backup_def f Let_def
        split: sum.splits option.splits amqp_error.splits)
  obtain r' where p: "fetch_page L cx claims (lp_status params) (list_limit params) (list_offset params) a = (r', a)"
    using fetch_page_state by (metis prod.collapse)
  show "a_db (snd (list_backups L cx claims params a)) = a_db a"
    by (auto simp: list_backups_def p Let_def split: sum.splits option.splits)
qed

lemma writers_frame [simp]:
  "a_counters (snd (create_backup L cx claims req a)) = a_counters a"
  "a_config (snd (create_backup L cx claims req a)) = a_config a"
  "a_counters (snd (update_backup L cx claims i ureq a)) = a_counters a"
  "a_config (snd (update_backup L cx claims i ureq a)) = a_config a"
  "a_counters (snd (delete_backup L cx claims i a)) = a_counters a"
  "a_config (snd (delete_backup L cx claims i a)) = a_config a"
  by (auto simp: create_backup_def update_backup_def delete_backup_def db_exec_eq Let_def
      split: sum.splits option.splits)

lemma readers_frame [simp]:
  "a_counters (snd (get_backup L cx claims i a)) = a_counters a"
  "a_config (snd (get_backup L cx claims i a)) = a_config a"
  "a_counters (snd (analyze_backup L cx claims i a)) = a_counters a"
  "a_config (snd (analyze_backup L cx claims i a)) = a_config a"
  "a_counters (snd (enqueue_backup L cx claims i a)) = a_counters a"
  "a_config (snd (enqueue_backup L cx claims i a)) = a_config a"
  "a_counters (snd (list_backups L cx claims params a)) = a_counters a"
  "a_config (snd (list_backups L cx claims params a)) = a_config a"
proof -
  obtain r where f: "fetch_owned L cx claims i a = (r, a)"
    using fetch_owned_state by (metis prod.collapse)
  show "a_counters (snd (get_backup L cx claims i a)) = a_counters a"
    "a_config (snd (get_backup L cx claims i a)) = a_config a"
    "a_counters (snd (analyze_backup L cx claims i a)) = a_counters a"
    "a_config (snd (analyze_backup L cx claims i a)) = a_config a"
    "a_counters (snd (enqueue_backup L cx claims i a)) = a_counters a"
    "a_config (snd (enqueue_backup L cx claims i a)) = a_config a"
    by (auto simp: get_backup_def analyze_backup_def enqueue_backup_def f Let_def
        split: sum.splits option.splits amqp_error.splits)
  obtain r' where p: "fetch_page L cx claims (lp_status params) (list_limit params) (list_offset params) a = (r', a)"
    using fetch_page_state by (metis prod.collapse)
  show "a_counters (snd (list_backups L cx claims params a)) = a_counters a"
    "a_config (snd (list_backups L cx claims params a)) = a_config a"
    by (auto simp: list_backups_def p Let_def split: sum.splits option.splits)
qed

section \<open>The protected endpoints\<close>

text \<open>
  The seven endpoints behind the middlewares, as \<^verbatim>\<open>create_router\<close> binds them to their handlers. The
  outcome of one is its response, an application error, or \<^const>\<open>None\<close> for a panic.
\<close>

datatype rest_call =
    CreateBackup create_request
  | ListBackups list_params
  | GetBackup uuid
  | UpdateBackup uuid update_request
  | DeleteBackup uuid
  | AnalyzeBackup uuid
  | EnqueueBackup uuid

fun run_handler ::
    "('r, 'j, 'q, 'f) libs \<Rightarrow> req_ctx \<Rightarrow> claims \<Rightarrow> rest_call \<Rightarrow> ('r, 'q) app_state \<Rightarrow>
     'f handled option \<times> ('r, 'q) app_state" where
  "run_handler L cx c (CreateBackup req) a = map_prod Some id (create_backup L cx c req a)"
| "run_handler L cx c (ListBackups params) a = map_prod Some id (list_backups L cx c params a)"
| "run_handler L cx c (GetBackup i) a = map_prod Some id (get_backup L cx c i a)"
| "run_handler L cx c (UpdateBackup i req) a = map_prod Some id (update_backup L cx c i req a)"
| "run_handler L cx c (DeleteBackup i) a = map_prod Some id (delete_backup L cx c i a)"
| "run_handler L cx c (AnalyzeBackup i) a = map_prod Some id (analyze_backup L cx c i a)"
| "run_handler L cx c (EnqueueBackup i) a = enqueue_backup L cx c i a"

text \<open>Every handler keeps the table's constraints, other tenants' rows and every row's identity.\<close>

lemma run_handler_table_ok: "table_ok (a_db a) \<Longrightarrow> table_ok (a_db (snd (run_handler L cx c call a)))"
  by (cases call)
    (simp_all add: create_db update_db delete_db ins.exec_keeps_ok upd.exec_keeps_ok del.exec_keeps_ok)

lemma run_handler_others:
  "filter (\<lambda>b. b_tenant_id b \<noteq> cl_tenant_id c) (a_db (snd (run_handler L cx c call a))) =
   filter (\<lambda>b. b_tenant_id b \<noteq> cl_tenant_id c) (a_db a)"
  by (cases call)
    (simp_all add: create_db update_db delete_db ins.exec_others_kept upd.exec_others_kept del.exec_others_kept)

lemma run_handler_core:
  "b \<in> set (a_db (snd (run_handler L cx c call a))) \<Longrightarrow> b_id b \<in> b_id ` set (a_db a) \<Longrightarrow>
   row_core b \<in> row_core ` set (a_db a)"
  by (cases call)
    (auto simp: create_db update_db delete_db split: if_splits
      dest: ins.exec_core_kept upd.exec_core_kept del.exec_core_kept)

lemma listed_others:
  assumes "filter (\<lambda>b. b_tenant_id b \<noteq> T) t' = filter (\<lambda>b. b_tenant_id b \<noteq> T) t" and "tn \<noteq> T"
  shows "filter (listed tn st) t' = filter (listed tn st) t"
proof -
  have *: "filter (listed tn st) xs = filter (listed tn st) (filter (\<lambda>b. b_tenant_id b \<noteq> T) xs)" for xs
    using assms(2) by (auto simp: listed_def intro!: filter_cong)
  show ?thesis using assms(1) by (subst (1 2) *) simp
qed

section \<open>Properties\<close>

text \<open>
  C19: Creating a backup. The request succeeds exactly when the path is absolute and free of
  \<^verbatim>\<open>..\<close>, has no zero byte, the statement is answered and the server's key is new; then the
  response is 201 with the stored row: the caller's tenant, the path and flag of the request, size
  0, status pending. On any error nothing is stored, unless the answer of an executed statement is
  lost; and the constraints of the table hold afterwards.
\<close>

theorem create_backup_effect:
  assumes "table_ok (a_db a)" and "create_backup L cx c req a = (r, a')"
  shows "(is_ok r \<longleftrightarrow> (\<exists>t. cr_source_path req = ''/'' @ t) \<and> \<not> (\<exists>x y. cr_source_path req = x @ ''..'' @ y) \<and>
       text_ok (cr_source_path req) \<and> cx_link cx = Up \<and> row_of (cx_new_id cx) (a_db a) = None) \<and>
    table_ok (a_db a') \<and>
    (case r of
       Inr response \<Rightarrow>
         (let b = new_row (cx_new_id cx) (cx_now cx) (cl_tenant_id c) (cr_source_path req) (cr_encryption_enabled req)
          in rp_code response = 201 \<and> rp_body response = BackupBody (response_of b) \<and> a_db a' = a_db a @ [b])
     | Inl e \<Rightarrow> a_db a' = a_db a \<or> (\<exists>m. cx_link cx = Lost m))"
proof -
  have "table_ok (a_db a')"
    using run_handler_table_ok [of a L cx c "CreateBackup req"] assms by simp
  moreover have "is_ok r \<longleftrightarrow> validate_source_path (cr_source_path req) = Inr () \<and>
      text_ok (cr_source_path req) \<and> cx_link cx = Up \<and> row_of (cx_new_id cx) (a_db a) = None"
    using assms(2) by (cases "cx_link cx")
      (auto simp: create_backup_def db_exec_eq sql_insert_def row_of_None_iff split: sum.splits if_splits)
  moreover have "case r of
       Inr response \<Rightarrow>
         (let b = new_row (cx_new_id cx) (cx_now cx) (cl_tenant_id c) (cr_source_path req) (cr_encryption_enabled req)
          in rp_code response = 201 \<and> rp_body response = BackupBody (response_of b) \<and> a_db a' = a_db a @ [b])
     | Inl e \<Rightarrow> a_db a' = a_db a \<or> (\<exists>m. cx_link cx = Lost m)"
    using assms(2) by (cases "cx_link cx")
      (auto simp: create_backup_def db_exec_eq sql_insert_def split: sum.splits if_splits)
  ultimately show ?thesis unfolding validate_source_path_Inr conj_assoc by (intro conjI)
qed

lemma create_backup_effect_witness:
  "\<exists>r a'. create_backup demo_libs (demo_cx 7) (demo_claims ''user'' 0)
       \<lparr> cr_source_path = ''data'', cr_encryption_enabled = False \<rparr> (demo_app [demo_row 1]) = (r, a') \<and>
     \<not> is_ok r \<and> a_db a' = [demo_row 1]"
proof -
  obtain r a' where c: "create_backup demo_libs (demo_cx 7) (demo_claims ''user'' 0)
       \<lparr> cr_source_path = ''data'', cr_encryption_enabled = False \<rparr> (demo_app [demo_row 1]) = (r, a')"
    by fastforce
  from create_backup_effect [OF _ c] have "\<not> is_ok r"
    "case r of Inr response \<Rightarrow> True | Inl e \<Rightarrow> a_db a' = [demo_row 1]"
    by (auto split: sum.splits)
  with c show ?thesis by (auto split: sum.splits)
qed

end
