(* ===== verification/Router.thy ===== *)
theory Router
  imports Handlers
begin

text \<open>
  \<^verbatim>\<open>crates/backup-service/src/router.rs\<close>: the routes, the two middlewares around the protected
  ones in the order the code layers them (authentication, then rate limit, then the handler with
  its extractors), and the public routes. The extractors of axum are a parameter: they turn a
  path segment, the query or the body into a handler's argument or a rejection. Paths are given as
  their segments. The layers around them are in \<^verbatim>\<open>Layers\<close>.
\<close>

section \<open>Requests\<close>

datatype http_method = GET | HEAD | POST | PATCH | DELETE | OtherMethod

record 'b http_request =
  hq_method :: http_method
  hq_path :: "string list"
  hq_query :: string
  hq_headers :: "string \<Rightarrow> string option"
  hq_body :: 'b

text \<open>A rejection has a status code and a plain text.\<close>

record 'b extractors =
  ex_id :: "string \<Rightarrow> (nat \<times> string) + uuid"
  ex_list_params :: "string \<Rightarrow> (nat \<times> string) + list_params"
  ex_create :: "'b \<Rightarrow> (nat \<times> string) + create_request"
  ex_update :: "'b \<Rightarrow> (nat \<times> string) + update_request"
  ex_login :: "'b \<Rightarrow> (nat \<times> string) + login_request"

record clocks =
  ck_wall :: nat
  ck_utc :: int
  ck_mono :: nanos

section \<open>The routes\<close>

datatype 'e routed = NoRoute | BadMethod | Routed 'e

definition api_backups :: "string list" where
  "api_backups = [''api'', ''v1'', ''backups'']"

text \<open>The protected routes; \<^verbatim>\<open>get\<close> also answers \<^verbatim>\<open>HEAD\<close>.\<close>

definition protected_route ::
    "'b extractors \<Rightarrow> 'b http_request \<Rightarrow> ((nat \<times> string) + rest_call) routed" where
  "protected_route E rq =
     (if take 3 (hq_path rq) \<noteq> api_backups then NoRoute
      else (case drop 3 (hq_path rq) of
              [] \<Rightarrow>
                (case hq_method rq of
                   GET \<Rightarrow> Routed (map_sum id ListBackups (ex_list_params E (hq_query rq)))
                 | HEAD \<Rightarrow> Routed (map_sum id ListBackups (ex_list_params E (hq_query rq)))
                 | POST \<Rightarrow> Routed (map_sum id CreateBackup (ex_create E (hq_body rq)))
                 | _ \<Rightarrow> BadMethod)
            | [seg] \<Rightarrow>
                (case hq_method rq of
                   GET \<Rightarrow> Routed (map_sum id GetBackup (ex_id E seg))
                 | HEAD \<Rightarrow> Routed (map_sum id GetBackup (ex_id E seg))
                 | PATCH \<Rightarrow>
                     Routed (case ex_id E seg of
                               Inl e \<Rightarrow> Inl e
                             | Inr i \<Rightarrow> map_sum id (UpdateBackup i) (ex_update E (hq_body rq)))
                 | DELETE \<Rightarrow> Routed (map_sum id DeleteBackup (ex_id E seg))
                 | _ \<Rightarrow> BadMethod)
            | [seg, action] \<Rightarrow>
                if action = ''analyze''
                then (case hq_method rq of
                        POST \<Rightarrow> Routed (map_sum id AnalyzeBackup (ex_id E seg)) | _ \<Rightarrow> BadMethod)
                else if action = ''process''
                then (case hq_method rq of
                        POST \<Rightarrow> Routed (map_sum id EnqueueBackup (ex_id E seg)) | _ \<Rightarrow> BadMethod)
                else NoRoute
            | _ \<Rightarrow> NoRoute))"

datatype public_route = HealthRoute | ReadyRoute | LoginRoute

definition public_route_of :: "http_method \<Rightarrow> string list \<Rightarrow> public_route routed" where
  "public_route_of m path =
     (if path = [''health''] then (if m \<in> {GET, HEAD} then Routed HealthRoute else BadMethod)
      else if path = [''ready''] then (if m \<in> {GET, HEAD} then Routed ReadyRoute else BadMethod)
      else if path = [''api'', ''v1'', ''auth'', ''login''] then (if m = POST then Routed LoginRoute else BadMethod)
      else NoRoute)"

section \<open>The stack\<close>

definition reject :: "nat \<times> string \<Rightarrow> 'f http_reply" where
  "reject e = reply (fst e) (TextBody (snd e))"

definition finish :: "'f handled option \<Rightarrow> 'f http_reply option" where
  "finish r = map_option (\<lambda>h. case h of Inl e \<Rightarrow> error_reply e | Inr response \<Rightarrow> response) r"

text \<open>A matched protected route behind the middlewares: extraction, then the handler.\<close>

definition run_endpoint ::
    "('r, 'j, 'q, 'f) libs \<Rightarrow> req_ctx \<Rightarrow> ((nat \<times> string) + rest_call) routed \<Rightarrow> claims \<Rightarrow> ('r, 'q) app_state \<Rightarrow>
     'f http_reply option \<times> ('r, 'q) app_state" where
  "run_endpoint L cx rt claims a =
     (case rt of
        Routed (Inr call) \<Rightarrow> (let (r, a') = run_handler L cx claims call a in (finish r, a'))
      | Routed (Inl e) \<Rightarrow> (Some (reject e), a)
      | _ \<Rightarrow> (Some (reply 405 NoBody), a))"

text \<open>The limiter's state is part of the shared state.\<close>

definition rate_limited ::
    "clocks \<Rightarrow> (claims \<Rightarrow> ('r, 'q) app_state \<Rightarrow> 'f http_reply option \<times> ('r, 'q) app_state) \<Rightarrow> claims \<Rightarrow>
     ('r, 'q) app_state \<Rightarrow> 'f http_reply option \<times> ('r, 'q) app_state" where
  "rate_limited ck nxt claims a =
     (case rate_limit_middleware (rate_limit (a_config a)) (Some claims) (ck_mono ck) (nxt claims) (a_counters a, a) of
        (response, counters', a') \<Rightarrow> (response, a'\<lparr> a_counters := counters' \<rparr>))"

definition handle_request ::
    "('r, 'j, 'q, 'f) libs \<Rightarrow> 'b extractors \<Rightarrow> clocks \<Rightarrow> req_ctx \<Rightarrow> 'b http_request \<Rightarrow> ('r, 'q) app_state \<Rightarrow>
     'f http_reply option \<times> ('r, 'q) app_state" where
  "handle_request L E ck cx rq a =
     (case protected_route E rq of
        NoRoute \<Rightarrow>
          (case public_route_of (hq_method rq) (hq_path rq) of
             Routed HealthRoute \<Rightarrow> (Some health, a)
           | Routed ReadyRoute \<Rightarrow> (Some (readiness L cx a), a)
           | Routed LoginRoute \<Rightarrow>
               (case ex_login E (hq_body rq) of
                  Inl e \<Rightarrow> (Some (reject e), a)
                | Inr cred \<Rightarrow>
                    (case login (lb_auth L) (a_config a) (ck_utc ck) cred of
                       Inl e \<Rightarrow> (Some (error_reply e), a)
                     | Inr response \<Rightarrow> (Some (reply 200 (LoginBody response)), a)))
           | BadMethod \<Rightarrow> (Some (reply 405 NoBody), a)
           | NoRoute \<Rightarrow> (Some (reply 404 NoBody), a))
      | rt \<Rightarrow>
          auth_middleware (lb_auth L) (a_config a) (ck_wall ck) (hq_headers rq)
            (rate_limited ck (run_endpoint L cx rt)) a)"

section \<open>What a request can change\<close>

lemma run_handler_frame [simp]:
  "a_counters (snd (run_handler L cx c call a)) = a_counters a"
  "a_config (snd (run_handler L cx c call a)) = a_config a"
  by (cases call; simp)+

lemma run_endpoint_effect:
  "(\<exists>call. rt = Routed (Inr call) \<and> snd (run_endpoint L cx rt c a) = snd (run_handler L cx c call a)) \<or>
   snd (run_endpoint L cx rt c a) = a"
  by (auto simp: run_endpoint_def split: routed.splits sum.splits prod.splits)

lemma rate_limited_effect:
  "(\<exists>m. snd (rate_limited ck nxt c a) = (snd (nxt c a))\<lparr> a_counters := m \<rparr>) \<or>
   (\<exists>m. snd (rate_limited ck nxt c a) = a\<lparr> a_counters := m \<rparr>)"
proof -
  obtain v m where v: "check_and_increment (rate_limit (a_config a)) (cl_tenant_id c) (ck_mono ck) (a_counters a) = (v, m)"
    by fastforce
  obtain r a1 where n: "nxt c a = (r, a1)" by fastforce
  show ?thesis
    by (cases v) (auto simp: rate_limited_def rate_limit_middleware_def v n)
qed

text \<open>The token that a request must carry for anything to happen in the name of a tenant.\<close>

definition authorized :: "('r, 'j, 'q, 'f) libs \<Rightarrow> clocks \<Rightarrow> 'b http_request \<Rightarrow> ('r, 'q) app_state \<Rightarrow> claims \<Rightarrow> bool" where
  "authorized L ck rq a c = admits (lb_auth L) (a_config a) (ck_wall ck) (hq_headers rq) c"

lemma handle_request_effect:
  assumes J: "jwt_library (lb_auth L)" and run: "handle_request L E ck cx rq a = (response, a')"
  shows "(\<exists>c call m. authorized L ck rq a c \<and> protected_route E rq = Routed (Inr call) \<and>
      a' = (snd (run_handler L cx c call a))\<lparr> a_counters := m \<rparr>) \<or>
    (\<exists>m. a' = a\<lparr> a_counters := m \<rparr>)"
proof (cases "protected_route E rq = NoRoute")
  case True
  then have "a' = a\<lparr> a_counters := a_counters a \<rparr>"
    using run by (auto simp: handle_request_def split: routed.splits public_route.splits sum.splits)
  then show ?thesis by blast
next
  case False
  let ?rt = "protected_route E rq"
  let ?nxt = "rate_limited ck (run_endpoint L cx ?rt)"
  have a': "a' = snd (auth_middleware (lb_auth L) (a_config a) (ck_wall ck) (hq_headers rq) ?nxt a)"
    using run False by (cases ?rt) (simp_all add: handle_request_def)
  from auth_middleware_cases [OF J, of "a_config a" "ck_wall ck" "hq_headers rq" ?nxt a]
  consider c where "authorized L ck rq a c" "a' = snd (?nxt c a)" | "a' = a"
    unfolding a' authorized_def by fastforce
  then show ?thesis
  proof cases
    case (1 c)
    from rate_limited_effect [of ck "run_endpoint L cx ?rt" c a] run_endpoint_effect [of ?rt L cx c a] 1
    show ?thesis by auto blast
  next
    case 2
    then have "a' = a\<lparr> a_counters := a_counters a \<rparr>" by simp
    then show ?thesis by blast
  qed
qed

section \<open>What a response shows\<close>

fun body_rows :: "'f http_body \<Rightarrow> 'f backup_response list" where
  "body_rows (BackupBody r) = [r]"
| "body_rows (ListBody l) = lr_items l"
| "body_rows _ = []"

lemma body_rows_error [simp]: "body_rows (rp_body (error_reply e)) = []"
  by (simp add: error_reply_def Let_def)

lemma body_rows_small [simp]:
  "body_rows (rp_body (reject e)) = []" "body_rows (rp_body health) = []"
  "body_rows (rp_body (readiness L cx a)) = []" "body_rows (rp_body (too_many_requests cfg)) = []"
  "rp_body (with_rate_headers info r) = rp_body r"
  by (simp_all add: reject_def health_def readiness_def Let_def too_many_requests_def with_rate_headers_def)

lemma run_endpoint_body:
  assumes "fst (run_endpoint L cx rt c a) = Some response" and "body_rows (rp_body response) \<noteq> []"
  shows "\<exists>call. rt = Routed (Inr call) \<and> fst (run_handler L cx c call a) = Some (Inr response)"
proof -
  obtain call where rt: "rt = Routed (Inr call)"
    using assms by (auto simp: run_endpoint_def split: routed.splits sum.splits)
  obtain r a1 where run: "run_handler L cx c call a = (r, a1)" by fastforce
  with assms(1) have f: "finish r = Some response" by (simp add: run_endpoint_def rt)
  then obtain h where h: "r = Some h" by (auto simp: finish_def)
  show ?thesis
  proof (cases h)
    case (Inl e)
    with f h assms(2) show ?thesis by (auto simp: finish_def)
  next
    case (Inr x)
    with f h rt run show ?thesis by (simp add: finish_def)
  qed
qed

lemma rate_limited_body:
  assumes "fst (rate_limited ck nxt c a) = Some response" and "body_rows (rp_body response) \<noteq> []"
  shows "\<exists>inner. fst (nxt c a) = Some inner \<and> rp_body response = rp_body inner"
proof -
  obtain v m where v: "check_and_increment (rate_limit (a_config a)) (cl_tenant_id c) (ck_mono ck) (a_counters a) = (v, m)"
    by fastforce
  obtain r a1 where n: "nxt c a = (r, a1)" by fastforce
  show ?thesis
    using assms by (cases v) (auto simp: rate_limited_def rate_limit_middleware_def v n)
qed

text \<open>Rows are shown only to an authorized request, and only as one of the handlers answers.\<close>

lemma handle_request_body:
  assumes J: "jwt_library (lb_auth L)" and run: "handle_request L E ck cx rq a = (Some response, a')"
    and rows: "body_rows (rp_body response) \<noteq> []"
  shows "\<exists>c call inner. authorized L ck rq a c \<and> fst (run_handler L cx c call a) = Some (Inr inner) \<and>
    rp_body response = rp_body inner"
proof (cases "protected_route E rq = NoRoute")
  case True
  then have "body_rows (rp_body response) = []"
    using run by (auto simp: handle_request_def split: routed.splits public_route.splits sum.splits)
  with rows show ?thesis by simp
next
  case False
  let ?rt = "protected_route E rq"
  let ?nxt = "rate_limited ck (run_endpoint L cx ?rt)"
  have r: "auth_middleware (lb_auth L) (a_config a) (ck_wall ck) (hq_headers rq) ?nxt a = (Some response, a')"
    using run False by (cases ?rt) (simp_all add: handle_request_def)
  from auth_middleware_cases [OF J, of "a_config a" "ck_wall ck" "hq_headers rq" ?nxt a]
  consider c where "authorized L ck rq a c" "?nxt c a = (Some response, a')" | e where "response = error_reply e"
    unfolding r authorized_def by fastforce
  then show ?thesis
  proof cases
    case (1 c)
    then have "fst (?nxt c a) = Some response" by simp
    from rate_limited_body [OF this rows] obtain inner where
      i: "fst (run_endpoint L cx ?rt c a) = Some inner" "rp_body response = rp_body inner" by blast
    with run_endpoint_body [OF i(1)] rows 1(1) show ?thesis by auto
  qed (use rows in simp)
qed

section \<open>What a route writes\<close>

text \<open>
  The change of the table that a method and a path stand for, in the name of a tenant: a POST to the
  collection appends a pending row, a PATCH of a member sets the given fields of that row of the
  tenant, a DELETE of a member removes it. No other request stands for a change.
\<close>

definition written_by :: "'b extractors \<Rightarrow> req_ctx \<Rightarrow> uuid \<Rightarrow> 'b http_request \<Rightarrow> table \<Rightarrow> table \<Rightarrow> bool" where
  "written_by E cx tn rq t t' =
     (hq_method rq = POST \<and> hq_path rq = api_backups \<and>
        (\<exists>req. ex_create E (hq_body rq) = Inr req \<and>
          t' = t @ [new_row (cx_new_id cx) (cx_now cx) tn (cr_source_path req) (cr_encryption_enabled req)]) \<or>
      (\<exists>seg i. hq_path rq = api_backups @ [seg] \<and> ex_id E seg = Inr i \<and>
        (hq_method rq = PATCH \<and>
           (\<exists>req. ex_update E (hq_body rq) = Inr req \<and>
             t' = map (\<lambda>b. if b_id b = i \<and> b_tenant_id b = tn
               then b\<lparr> b_status := (case ur_status req of None \<Rightarrow> b_status b | Some s \<Rightarrow> status_fmt s),
                       b_size_bytes := (case ur_size_bytes req of None \<Rightarrow> b_size_bytes b | Some n \<Rightarrow> n),
                       b_updated_at := cx_now cx \<rparr>
               else b) t) \<or>
         hq_method rq = DELETE \<and> t' = filter (\<lambda>b. \<not> (b_id b = i \<and> b_tenant_id b = tn)) t)))"

lemma map_sum_eq_Inr: "map_sum f g x = Inr y \<longleftrightarrow> (\<exists>z. x = Inr z \<and> y = g z)"
  by (cases x) auto

lemma protected_route_path: "protected_route E rq = Routed (Inr call) \<Longrightarrow> hq_path rq = api_backups @ drop 3 (hq_path rq)"
  by (metis append_take_drop_id protected_route_def routed.distinct(4))

lemma protected_writers:
  assumes "protected_route E rq = Routed (Inr call)"
  shows "call = CreateBackup creq \<Longrightarrow> hq_method rq = POST \<and> hq_path rq = api_backups \<and> ex_create E (hq_body rq) = Inr creq"
    and "call = UpdateBackup i ureq \<Longrightarrow> hq_method rq = PATCH \<and>
      (\<exists>seg. hq_path rq = api_backups @ [seg] \<and> ex_id E seg = Inr i) \<and> ex_update E (hq_body rq) = Inr ureq"
    and "call = DeleteBackup i \<Longrightarrow> hq_method rq = DELETE \<and> (\<exists>seg. hq_path rq = api_backups @ [seg] \<and> ex_id E seg = Inr i)"
  using assms protected_route_path [OF assms]
  by (auto simp: protected_route_def map_sum_eq_Inr split: if_splits list.splits http_method.splits sum.splits)

lemma run_handler_writes:
  assumes rt: "protected_route E rq = Routed (Inr call)"
  shows "a_db (snd (run_handler L cx c call a)) = a_db a \<or>
    written_by E cx (cl_tenant_id c) rq (a_db a) (a_db (snd (run_handler L cx c call a)))"
proof (cases call)
  case (CreateBackup req)
  from protected_writers(1) [OF rt this] pg_exec_snd show ?thesis
    by (auto simp: CreateBackup create_db written_by_def sql_insert_def pg_exec_def split: link.splits)
next
  case (UpdateBackup i req)
  let ?f = "coalesce_row (map_option status_fmt (ur_status req)) (ur_size_bytes req) (cx_now cx)"
  have f: "?f b = b\<lparr> b_status := (case ur_status req of None \<Rightarrow> b_status b | Some s \<Rightarrow> status_fmt s),
      b_size_bytes := (case ur_size_bytes req of None \<Rightarrow> b_size_bytes b | Some n \<Rightarrow> n), b_updated_at := cx_now cx \<rparr>" for b
    by (simp add: coalesce_row_def or_keep_def split: option.splits)
  have "a_db (snd (run_handler L cx c call a)) \<in> {a_db a, upd_where (owned i (cl_tenant_id c)) ?f (a_db a)}"
    by (auto simp: UpdateBackup update_db update_rows_def pg_exec_def split: link.splits)
  with protected_writers(2) [OF rt UpdateBackup] show ?thesis
    by (auto simp: written_by_def upd_where_def owned_def f)
next
  case (DeleteBackup i)
  from protected_writers(3) [OF rt this] show ?thesis
    by (auto simp: DeleteBackup delete_db written_by_def sql_delete_def owned_def pg_exec_def split: link.splits)
qed simp_all

section \<open>Properties\<close>

text \<open>
  C11: What a request may do to the database. Whatever arrives, either no row changes; or the
  request carries a token that the configured secret verifies, unexpired up to the leeway, and the
  table changes as its method and path say, in the name of the token's tenant: a POST to the
  collection appends one pending row of the tenant, a PATCH of a member sets the fields it gives and
  the time on that row of the tenant, a DELETE of a member removes that row of the tenant, and
  nothing else changes. In all cases the table's constraints are kept and the configuration is
  unchanged.
\<close>

theorem request_confined_to_tenant:
  assumes J: "jwt_library (lb_auth L)" and ok: "table_ok (a_db a)"
    and run: "handle_request L E ck cx rq a = (response, a')"
  shows "(a_db a' = a_db a \<or>
      (\<exists>token c. hq_headers rq ''Authorization'' = Some (''Bearer '' @ token) \<and>
         verify_token (lb_auth L) (ck_wall ck) token (jwt_secret (a_config a)) = Inr c \<and>
         ck_wall ck \<le> unat (cl_exp c) + 60 \<and>
         written_by E cx (cl_tenant_id c) rq (a_db a) (a_db a') \<and>
         filter (\<lambda>b. b_tenant_id b \<noteq> cl_tenant_id c) (a_db a') = filter (\<lambda>b. b_tenant_id b \<noteq> cl_tenant_id c) (a_db a))) \<and>
    table_ok (a_db a') \<and> a_config a' = a_config a \<and>
    (\<forall>b \<in> set (a_db a'). b_id b \<in> b_id ` set (a_db a) \<longrightarrow> row_core b \<in> row_core ` set (a_db a))"
proof -
  consider c call m where "authorized L ck rq a c" "protected_route E rq = Routed (Inr call)"
      "a' = (snd (run_handler L cx c call a))\<lparr> a_counters := m \<rparr>"
    | m where "a' = a\<lparr> a_counters := m \<rparr>"
    using handle_request_effect [OF J run] by blast
  then show ?thesis
  proof cases
    case (1 c call m)
    then have db: "a_db a' = a_db (snd (run_handler L cx c call a))" "a_config a' = a_config a" by simp_all
    from 1(1) show ?thesis
      unfolding db authorized_def admits_def
      using run_handler_others [of c L cx call a] run_handler_table_ok [OF ok, of L cx c call]
        run_handler_core [of _ L cx c call a] run_handler_writes [OF 1(2), of L cx c a] by blast
  qed (use ok in auto)
qed

definition demo_extractors :: "unit extractors" where
  "demo_extractors =
     \<lparr> ex_id = (\<lambda>s. map_sum (\<lambda>e. (400, e)) id (std_uuid_parse s)),
       ex_list_params = (\<lambda>q. Inr (list_params_of None None None)),
       ex_create = (\<lambda>b. Inr \<lparr> cr_source_path = ''/d'', cr_encryption_enabled = False \<rparr>),
       ex_update = (\<lambda>b. Inr \<lparr> ur_status = Some Failed, ur_size_bytes = None \<rparr>),
       ex_login = (\<lambda>b. Inr \<lparr> lq_username = ''user'', lq_password = ''user'' \<rparr>) \<rparr>"

lemma request_confined_to_tenant_witness:
  "\<exists>response a'. handle_request demo_libs demo_extractors \<lparr> ck_wall = 0, ck_utc = 0, ck_mono = 0 \<rparr> (demo_cx 1)
     \<lparr> hq_method = GET, hq_path = api_backups, hq_query = [], hq_headers = Map.empty, hq_body = () \<rparr>
     (demo_app [demo_row 1]) = (response, a') \<and> a_db a' = [demo_row 1]"
proof -
  obtain response a' where r: "handle_request demo_libs demo_extractors \<lparr> ck_wall = 0, ck_utc = 0, ck_mono = 0 \<rparr> (demo_cx 1)
     \<lparr> hq_method = GET, hq_path = api_backups, hq_query = [], hq_headers = Map.empty, hq_body = () \<rparr>
     (demo_app [demo_row 1]) = (response, a')" by fastforce
  moreover have "jwt_library (lb_auth demo_libs)" by (simp add: demo_jwt.jwt_library_axioms)
  ultimately show ?thesis using request_confined_to_tenant [OF _ _ r] by auto
qed

end
