(* ===== verification/Handler_Tasks.thy ===== *)
theory Handler_Tasks
  imports Tasks Router
begin

text \<open>
  The handlers of \<^verbatim>\<open>handlers/backups.rs\<close> and the two middlewares as tasks: one action per
  \<^verbatim>\<open>.await\<close> that reaches the shared state (a statement, a Redis command, the limiter's lock, the
  broker) and one per read of the configuration behind its lock. Run alone, a task does what the
  definition of \<^verbatim>\<open>Handlers\<close> or \<^verbatim>\<open>Router\<close> says; under a scheduler others act between its actions.
\<close>

section \<open>Actions\<close>

definition read_config :: "(('r, 'q) app_state, app_config) task" where
  "read_config = act (\<lambda>a. (a_config a, a))"

definition stmt_task :: "link \<Rightarrow> 'a stmt \<Rightarrow> (('r, 'q) app_state, pg_error + 'a) task" where
  "stmt_task l run = act (db_exec l run)"

definition cache_task :: "('r option \<Rightarrow> 'a) \<Rightarrow> (('r, 'q) app_state, 'a) task" where
  "cache_task get = act (\<lambda>a. (get (a_cache a), a))"

definition cache_update :: "('r option \<Rightarrow> 'r option) \<Rightarrow> (('r, 'q) app_state, unit) task" where
  "cache_update upd = act (\<lambda>a. ((), a\<lparr> a_cache := upd (a_cache a) \<rparr>))"

lemmas task_action_defs = read_config_def stmt_task_def cache_task_def cache_update_def

section \<open>The handlers\<close>

definition drop_list_then ::
    "('r, 'j, 'q, 'f) libs \<Rightarrow> claims \<Rightarrow> (('r, 'q) app_state, 'a) task \<Rightarrow> (('r, 'q) app_state, 'a) task" where
  "drop_list_then L claims rest =
     and_then (cache_update (\<lambda>conn. cache_invalidate_tenant_backups (lb_cache L) conn (cl_tenant_id claims)))
       (\<lambda>_. rest)"

definition create_task ::
    "('r, 'j, 'q, 'f) libs \<Rightarrow> req_ctx \<Rightarrow> claims \<Rightarrow> create_request \<Rightarrow> (('r, 'q) app_state, 'f handled) task" where
  "create_task L cx claims req =
     (case validate_source_path (cr_source_path req) of
        Inl e \<Rightarrow> Done (Inl e)
      | Inr _ \<Rightarrow>
          and_then
            (stmt_task (cx_link cx)
               (sql_insert (cx_new_id cx) (cx_now cx) (cl_tenant_id claims) (cr_source_path req)
                  (cr_encryption_enabled req)))
            (\<lambda>r. case r of
               Inl e \<Rightarrow> Done (Inl (Database e))
             | Inr b \<Rightarrow>
                 drop_list_then L claims (Done (Inr (reply 201 (BackupBody (response_of b)))))))"

text \<open>The two invalidations after a write to a row.\<close>

definition invalidate_then ::
    "('r, 'j, 'q, 'f) libs \<Rightarrow> claims \<Rightarrow> uuid \<Rightarrow> (('r, 'q) app_state, 'a) task \<Rightarrow> (('r, 'q) app_state, 'a) task" where
  "invalidate_then L claims i rest =
     and_then (cache_update (\<lambda>conn. cache_invalidate_backup (lb_cache L) conn i)) (\<lambda>_. drop_list_then L claims rest)"

definition update_task ::
    "('r, 'j, 'q, 'f) libs \<Rightarrow> req_ctx \<Rightarrow> claims \<Rightarrow> uuid \<Rightarrow> update_request \<Rightarrow> (('r, 'q) app_state, 'f handled) task" where
  "update_task L cx claims i req =
     (let status = map_option status_fmt (ur_status req)
      in and_then
           (stmt_task (cx_link cx) (sql_update i (cl_tenant_id claims) status (ur_size_bytes req) (cx_now cx)))
           (\<lambda>r. case r of
              Inl e \<Rightarrow> Done (Inl (Database e))
            | Inr None \<Rightarrow> Done (Inl (not_found L i))
            | Inr (Some b) \<Rightarrow> invalidate_then L claims i (Done (Inr (reply 200 (BackupBody (response_of b)))))))"

definition delete_task ::
    "('r, 'j, 'q, 'f) libs \<Rightarrow> req_ctx \<Rightarrow> claims \<Rightarrow> uuid \<Rightarrow> (('r, 'q) app_state, 'f handled) task" where
  "delete_task L cx claims i =
     and_then (stmt_task (cx_link cx) (sql_delete i (cl_tenant_id claims)))
       (\<lambda>r. case r of
          Inl e \<Rightarrow> Done (Inl (Database e))
        | Inr affected \<Rightarrow>
            if affected = 0 then Done (Inl (not_found L i))
            else invalidate_then L claims i (Done (Inr (reply 204 NoBody))))"

definition fetch_task ::
    "('r, 'j, 'q, 'f) libs \<Rightarrow> req_ctx \<Rightarrow> claims \<Rightarrow> uuid \<Rightarrow> (('r, 'q) app_state, app_error + backup) task" where
  "fetch_task L cx claims i =
     and_then (stmt_task (cx_link cx) (sql_select i (cl_tenant_id claims)))
       (\<lambda>r. Done (case r of
          Inl e \<Rightarrow> Inl (Database e)
        | Inr None \<Rightarrow> Inl (not_found L i)
        | Inr (Some b) \<Rightarrow> Inr b))"

text \<open>A GET that misses: select, then fill under the time to live configured at that moment.\<close>

definition store_then ::
    "('r, 'j, 'q, 'f) libs \<Rightarrow> app_config \<Rightarrow> backup \<Rightarrow> (('r, 'q) app_state, 'a) task \<Rightarrow> (('r, 'q) app_state, 'a) task" where
  "store_then L config b rest =
     and_then (cache_update (\<lambda>conn. cache_set_backup (lb_cache L) (Some config) conn b)) (\<lambda>_. rest)"

definition fill_then ::
    "('r, 'j, 'q, 'f) libs \<Rightarrow> backup \<Rightarrow> (('r, 'q) app_state, 'a) task \<Rightarrow> (('r, 'q) app_state, 'a) task" where
  "fill_then L b rest = and_then read_config (\<lambda>config. store_then L config b rest)"

definition miss_task ::
    "('r, 'j, 'q, 'f) libs \<Rightarrow> req_ctx \<Rightarrow> claims \<Rightarrow> uuid \<Rightarrow> (('r, 'q) app_state, 'f handled) task" where
  "miss_task L cx claims i =
     and_then (fetch_task L cx claims i)
       (\<lambda>r. case r of
          Inl e \<Rightarrow> Done (Inl e)
        | Inr b \<Rightarrow> fill_then L b (Done (Inr (reply 200 (BackupBody (response_of b))))))"

definition get_task ::
    "('r, 'j, 'q, 'f) libs \<Rightarrow> req_ctx \<Rightarrow> claims \<Rightarrow> uuid \<Rightarrow> (('r, 'q) app_state, 'f handled) task" where
  "get_task L cx claims i =
     and_then (cache_task (\<lambda>conn. cache_get_backup (lb_cache L) conn i))
       (\<lambda>r. case r of
          Some cached \<Rightarrow>
            if b_tenant_id cached = cl_tenant_id claims
            then Done (Inr (reply 200 (BackupBody (response_of cached)))) else miss_task L cx claims i
        | None \<Rightarrow> miss_task L cx claims i)"

definition page_task ::
    "('r, 'j, 'q, 'f) libs \<Rightarrow> req_ctx \<Rightarrow> claims \<Rightarrow> string option \<Rightarrow> i64 \<Rightarrow> i64 \<Rightarrow>
     (('r, 'q) app_state, app_error + backup list \<times> i64) task" where
  "page_task L cx claims status limit offset =
     and_then (stmt_task (cx_link cx) (sql_page (lb_order L) (cl_tenant_id claims) status limit offset))
       (\<lambda>r. case r of
          Inl e \<Rightarrow> Done (Inl (Database e))
        | Inr items \<Rightarrow>
            and_then (stmt_task (cx_link2 cx) (sql_count (cl_tenant_id claims) status))
              (\<lambda>r. Done (case r of Inl e \<Rightarrow> Inl (Database e) | Inr tot \<Rightarrow> Inr (items, tot))))"

definition list_task ::
    "('r, 'j, 'q, 'f) libs \<Rightarrow> req_ctx \<Rightarrow> claims \<Rightarrow> list_params \<Rightarrow> (('r, 'q) app_state, 'f handled) task" where
  "list_task L cx claims params =
     (let limit = list_limit params; offset = list_offset params
      in and_then read_config (\<lambda>config.
         let use_cache = use_list_cache config params;
             fetch = and_then (page_task L cx claims (lp_status params) limit offset)
               (\<lambda>r. case r of
                  Inl e \<Rightarrow> Done (Inl e)
                | Inr (items, tot) \<Rightarrow>
                    if use_cache
                    then and_then read_config (\<lambda>config.
                         and_then (cache_update (\<lambda>conn.
                             cache_set_tenant_backups (lb_cache L) (Some config) conn (cl_tenant_id claims) items tot))
                           (\<lambda>_. Done (Inr (list_reply items tot offset limit))))
                    else Done (Inr (list_reply items tot offset limit)))
         in if use_cache
            then and_then (cache_task (\<lambda>conn. cache_get_tenant_backups (lb_cache L) conn (cl_tenant_id claims)))
                   (\<lambda>r. case r of
                      Some (items, tot) \<Rightarrow> Done (Inr (list_reply items tot offset limit))
                    | None \<Rightarrow> fetch)
            else fetch))"

text \<open>The analysis runs on the blocking pool; its end is an action without effect.\<close>

definition analyze_task ::
    "('r, 'j, 'q, 'f) libs \<Rightarrow> req_ctx \<Rightarrow> claims \<Rightarrow> uuid \<Rightarrow> (('r, 'q) app_state, 'f handled) task" where
  "analyze_task L cx claims i =
     and_then (fetch_task L cx claims i)
       (\<lambda>r. case r of
          Inl e \<Rightarrow> Done (Inl e)
        | Inr b \<Rightarrow>
            and_then (act (\<lambda>a. (case cx_join cx of
                Some e \<Rightarrow> Inl (Internal (''task join error: '' @ e))
              | None \<Rightarrow> Inr (shannon_entropy (lb_f64 L) (synthetic_data 4096 (b_source_path b))), a)))
            (\<lambda>r. Done (case r of
                Inl e \<Rightarrow> Inl e
              | Inr entropy \<Rightarrow> Inr (reply 200 (BackupBody ((response_of b)\<lparr> r_entropy := Some entropy \<rparr>))))))"

text \<open>Publishing uses the channel the state holds.\<close>

definition publish_task ::
    "('r, 'j, 'q, 'f) libs \<Rightarrow> backup_job \<Rightarrow> (('r, 'q) app_state, (app_error + unit) option) task" where
  "publish_task L job = act (\<lambda>a.
     case a_amqp a of
       None \<Rightarrow> (Some (Inl (Internal ''RabbitMQ not configured'')), a)
     | Some channel \<Rightarrow>
         (case publish_job (lb_job_json L) (lb_amqp L) job channel of
            None \<Rightarrow> (None, a)
          | Some (Inl (AmqpError e), channel) \<Rightarrow>
              (Some (Inl (Internal (''failed to enqueue job: '' @ e))), a\<lparr> a_amqp := Some channel \<rparr>)
          | Some (Inr _, channel) \<Rightarrow> (Some (Inr ()), a\<lparr> a_amqp := Some channel \<rparr>)))"

definition enqueue_task ::
    "('r, 'j, 'q, 'f) libs \<Rightarrow> req_ctx \<Rightarrow> claims \<Rightarrow> uuid \<Rightarrow> (('r, 'q) app_state, 'f handled option) task" where
  "enqueue_task L cx claims i =
     and_then (fetch_task L cx claims i)
       (\<lambda>r. case r of
          Inl e \<Rightarrow> Done (Some (Inl e))
        | Inr b \<Rightarrow>
            map_result (map_option (map_sum id (\<lambda>_. reply 202 (EnqueuedBody ''backup job enqueued'' i))))
              (publish_task L (job_of b)))"

fun handler_task ::
    "('r, 'j, 'q, 'f) libs \<Rightarrow> req_ctx \<Rightarrow> claims \<Rightarrow> rest_call \<Rightarrow> (('r, 'q) app_state, 'f handled option) task" where
  "handler_task L cx c (CreateBackup req) = map_result Some (create_task L cx c req)"
| "handler_task L cx c (ListBackups params) = map_result Some (list_task L cx c params)"
| "handler_task L cx c (GetBackup i) = map_result Some (get_task L cx c i)"
| "handler_task L cx c (UpdateBackup i req) = map_result Some (update_task L cx c i req)"
| "handler_task L cx c (DeleteBackup i) = map_result Some (delete_task L cx c i)"
| "handler_task L cx c (AnalyzeBackup i) = map_result Some (analyze_task L cx c i)"
| "handler_task L cx c (EnqueueBackup i) = enqueue_task L cx c i"

section \<open>The stack\<close>

definition auth_task ::
    "('r, 'j, 'q, 'f) libs \<Rightarrow> clocks \<Rightarrow> (string \<Rightarrow> string option) \<Rightarrow> (('r, 'q) app_state, 'f http_reply + claims) task" where
  "auth_task L ck headers =
     and_then read_config (\<lambda>config. Done (
       case bearer_token (lb_auth L) headers of
         Inl e \<Rightarrow> Inl (error_reply e)
       | Inr token \<Rightarrow>
           (case verify_token (lb_auth L) (ck_wall ck) token (jwt_secret config) of
              Inl e \<Rightarrow> Inl (error_reply e)
            | Inr claims \<Rightarrow> Inr claims)))"

definition limit_task ::
    "clocks \<Rightarrow> claims \<Rightarrow> (('r, 'q) app_state, 'f http_reply option) task \<Rightarrow> (('r, 'q) app_state, 'f http_reply option) task" where
  "limit_task ck claims nxt =
     and_then read_config (\<lambda>config.
     and_then (act (\<lambda>a.
         case check_and_increment (rate_limit config) (cl_tenant_id claims) (ck_mono ck) (a_counters a) of
           (v, counters') \<Rightarrow> (v, a\<lparr> a_counters := counters' \<rparr>)))
       (\<lambda>v. case v of
          Inr info \<Rightarrow> map_result (map_option (with_rate_headers info)) nxt
        | Inl _ \<Rightarrow> Done (Some (too_many_requests (rate_limit config)))))"

definition endpoint_task ::
    "('r, 'j, 'q, 'f) libs \<Rightarrow> req_ctx \<Rightarrow> ((nat \<times> string) + rest_call) routed \<Rightarrow> claims \<Rightarrow>
     (('r, 'q) app_state, 'f http_reply option) task" where
  "endpoint_task L cx rt claims =
     (case rt of
        Routed (Inr call) \<Rightarrow> map_result finish (handler_task L cx claims call)
      | Routed (Inl e) \<Rightarrow> Done (Some (reject e))
      | _ \<Rightarrow> Done (Some (reply 405 NoBody)))"

definition ready_task :: "('r, 'j, 'q, 'f) libs \<Rightarrow> req_ctx \<Rightarrow> (('r, 'q) app_state, 'f http_reply option) task" where
  "ready_task L cx =
     and_then (stmt_task (cx_link cx) (\<lambda>t. (Inr (), t))) (\<lambda>r.
     and_then (cache_task (cache_ping (lb_cache L))) (\<lambda>redis_ok.
       let db_ok = is_ok r; status = (if db_ok \<and> redis_ok then 200 else 503)
       in Done (Some (reply status (ReadyBody (if status = 200 then ''ready'' else ''not ready'') db_ok redis_ok)))))"

definition request_task ::
    "('r, 'j, 'q, 'f) libs \<Rightarrow> 'b extractors \<Rightarrow> clocks \<Rightarrow> req_ctx \<Rightarrow> 'b http_request \<Rightarrow>
     (('r, 'q) app_state, 'f http_reply option) task" where
  "request_task L E ck cx rq =
     (case protected_route E rq of
        NoRoute \<Rightarrow>
          (case public_route_of (hq_method rq) (hq_path rq) of
             Routed HealthRoute \<Rightarrow> Done (Some health)
           | Routed ReadyRoute \<Rightarrow> ready_task L cx
           | Routed LoginRoute \<Rightarrow>
               (case ex_login E (hq_body rq) of
                  Inl e \<Rightarrow> Done (Some (reject e))
                | Inr cred \<Rightarrow>
                    and_then read_config (\<lambda>config. Done (Some (
                      case login (lb_auth L) config (ck_utc ck) cred of
                        Inl e \<Rightarrow> error_reply e
                      | Inr response \<Rightarrow> reply 200 (LoginBody response)))))
           | BadMethod \<Rightarrow> Done (Some (reply 405 NoBody))
           | NoRoute \<Rightarrow> Done (Some (reply 404 NoBody)))
      | rt \<Rightarrow>
          and_then (auth_task L ck (hq_headers rq))
            (\<lambda>r. case r of
               Inl response \<Rightarrow> Done (Some response)
             | Inr claims \<Rightarrow> limit_task ck claims (endpoint_task L cx rt claims)))"

section \<open>Alone, a task is its handler\<close>

lemma run_actions [simp]:
  "run_task read_config a = (a_config a, a)"
  "run_task (stmt_task l run) a = db_exec l run a"
  "run_task (cache_task get) a = (get (a_cache a), a)"
  "run_task (cache_update upd) a = ((), a\<lparr> a_cache := upd (a_cache a) \<rparr>)"
  by (simp_all add: task_action_defs)

lemma run_fetch_task [simp]: "run_task (fetch_task L cx c i) a = fetch_owned L cx c i a"
  by (auto simp: fetch_task_def fetch_owned_def split: prod.splits sum.splits option.splits)

lemma run_page_task [simp]:
  "run_task (page_task L cx c st limit offset) a = fetch_page L cx c st limit offset a"
  by (auto simp: page_task_def fetch_page_def split: prod.splits sum.splits)

lemma run_invalidate_then [simp]:
  "run_task (invalidate_then L c i rest) a =
     run_task rest (a\<lparr> a_cache := cache_invalidate_tenant_backups (lb_cache L)
       (cache_invalidate_backup (lb_cache L) (a_cache a) i) (cl_tenant_id c) \<rparr>)"
  by (simp add: invalidate_then_def drop_list_then_def)

lemma run_write_tasks [simp]:
  "run_task (create_task L cx c req) a = create_backup L cx c req a"
  "run_task (update_task L cx c i ureq) a = update_backup L cx c i ureq a"
  "run_task (delete_task L cx c i) a = delete_backup L cx c i a"
  by (auto simp: create_task_def drop_list_then_def create_backup_def update_task_def update_backup_def delete_task_def
      delete_backup_def Let_def split: prod.splits sum.splits option.splits)

lemma run_get_task [simp]: "run_task (get_task L cx c i) a = get_backup L cx c i a"
  by (auto simp: get_task_def miss_task_def fill_then_def store_then_def get_backup_def Let_def split: prod.splits sum.splits option.splits)

lemma run_list_task [simp]: "run_task (list_task L cx c params) a = list_backups L cx c params a"
proof -
  obtain r where "fetch_page L cx c (lp_status params) (list_limit params) (list_offset params) a = (r, a)"
    using fetch_page_state by (metis prod.collapse)
  then show ?thesis
    by (auto simp: list_task_def list_backups_def Let_def split: prod.splits sum.splits option.splits)
qed

lemma run_analyze_task [simp]: "run_task (analyze_task L cx c i) a = analyze_backup L cx c i a"
  by (cases "fetch_owned L cx c i a"; cases "fst (fetch_owned L cx c i a)"; cases "cx_join cx")
    (simp_all add: analyze_task_def analyze_backup_def Let_def)

lemma run_enqueue_task [simp]: "run_task (enqueue_task L cx c i) a = enqueue_backup L cx c i a"
  by (auto simp: enqueue_task_def enqueue_backup_def publish_task_def
      split: prod.splits sum.splits option.splits amqp_error.splits)

lemma run_handler_task [simp]: "run_task (handler_task L cx c call) a = run_handler L cx c call a"
  by (cases call) simp_all

text \<open>The handlers neither read nor write the limiter's counters.\<close>

lemma db_exec_counters:
  "db_exec l run (a\<lparr> a_counters := m \<rparr>) = map_prod id (\<lambda>a. a\<lparr> a_counters := m \<rparr>) (db_exec l run a)"
  by (simp add: db_exec_def split_beta)

lemma fetches_counters:
  "fetch_owned L cx c i (a\<lparr> a_counters := m \<rparr>) = map_prod id (\<lambda>a. a\<lparr> a_counters := m \<rparr>) (fetch_owned L cx c i a)"
  "fetch_page L cx c st limit offset (a\<lparr> a_counters := m \<rparr>) =
     map_prod id (\<lambda>a. a\<lparr> a_counters := m \<rparr>) (fetch_page L cx c st limit offset a)"
  by (auto simp: fetch_owned_def fetch_page_def db_exec_counters split: prod.splits sum.splits option.splits)

lemma run_handler_counters:
  "run_handler L cx c call (a\<lparr> a_counters := m \<rparr>) =
   map_prod id (\<lambda>a. a\<lparr> a_counters := m \<rparr>) (run_handler L cx c call a)"
proof (cases call)
  case (CreateBackup req)
  then show ?thesis
    by (auto simp: create_backup_def db_exec_counters split: prod.splits sum.splits)
next
  case (ListBackups params)
  obtain r where "fetch_page L cx c (lp_status params) (list_limit params) (list_offset params) a = (r, a)"
    using fetch_page_state by (metis prod.collapse)
  with ListBackups show ?thesis
    by (auto simp: list_backups_def fetches_counters Let_def split: sum.splits option.splits)
next
  case (GetBackup i)
  then show ?thesis
    by (auto simp: get_backup_def fetches_counters Let_def split: prod.splits sum.splits option.splits)
next
  case (UpdateBackup i req)
  then show ?thesis
    by (auto simp: update_backup_def db_exec_counters Let_def split: prod.splits sum.splits option.splits)
next
  case (DeleteBackup i)
  then show ?thesis
    by (auto simp: delete_backup_def db_exec_counters Let_def split: prod.splits sum.splits)
next
  case (AnalyzeBackup i)
  then show ?thesis
    by (auto simp: analyze_backup_def fetches_counters Let_def split: prod.splits sum.splits option.splits)
next
  case (EnqueueBackup i)
  obtain r where "fetch_owned L cx c i a = (r, a)"
    using fetch_owned_state by (metis prod.collapse)
  with EnqueueBackup show ?thesis
    by (auto simp: enqueue_backup_def fetches_counters split: sum.splits option.splits amqp_error.splits)
qed

lemma run_endpoint_counters:
  "run_endpoint L cx rt c (a\<lparr> a_counters := m \<rparr>) =
   map_prod id (\<lambda>a. a\<lparr> a_counters := m \<rparr>) (run_endpoint L cx rt c a)"
  by (auto simp: run_endpoint_def run_handler_counters split: routed.splits sum.splits prod.splits)

lemma run_endpoint_task [simp]: "run_task (endpoint_task L cx rt c) a = run_endpoint L cx rt c a"
  by (auto simp: endpoint_task_def run_endpoint_def split: routed.splits sum.splits prod.splits)

lemma run_limit_task [simp]:
  "run_task (limit_task ck c (endpoint_task L cx rt c)) a = rate_limited ck (run_endpoint L cx rt) c a"
proof -
  obtain v m where v: "check_and_increment (rate_limit (a_config a)) (cl_tenant_id c) (ck_mono ck) (a_counters a) = (v, m)"
    by fastforce
  obtain r a1 where n: "run_endpoint L cx rt c a = (r, a1)" by fastforce
  show ?thesis
    by (cases v) (auto simp: limit_task_def rate_limited_def rate_limit_middleware_def v n run_endpoint_counters)
qed

lemma ping_read_only [simp]: "snd (pg_exec l (Pair (Inr ())) t) = t"
  by (cases l) simp_all

lemma run_request_task: "run_task (request_task L E ck cx rq) a = handle_request L E ck cx rq a"
proof (cases "protected_route E rq = NoRoute")
  case True
  then show ?thesis
    by (auto simp: request_task_def handle_request_def ready_task_def readiness_def Let_def db_exec_eq
        split: routed.splits public_route.splits sum.splits)
next
  case False
  then show ?thesis
    by (cases "protected_route E rq")
      (auto simp: request_task_def handle_request_def auth_task_def auth_middleware_def
        split: sum.splits)
qed

section \<open>Every task is short\<close>

text \<open>
  The longest request lists backups: the two reads of the middlewares, the limiter's lock, and then
  configuration, cache, page, count, configuration, cache.
\<close>

lemmas steps_le_intros = steps_le_act_then steps_le_map_result

lemma fetch_steps: "(\<And>r. steps_le n (k r)) \<Longrightarrow> steps_le (Suc n) (and_then (fetch_task L cx c i) k)"
  by (simp add: fetch_task_def task_action_defs split_beta)

lemma page_steps: "(\<And>r. steps_le n (k r)) \<Longrightarrow> steps_le (Suc (Suc n)) (and_then (page_task L cx c st limit offset) k)"
  by (auto simp: page_task_def task_action_defs split_beta split: sum.splits intro: steps_le_Suc)

lemma handler_task_steps: "steps_le 6 (handler_task L cx c call)"
proof (cases call)
  case (CreateBackup req)
  then show ?thesis
    by (auto simp: create_task_def drop_list_then_def task_action_defs eval_nat_numeral split: sum.splits intro!: steps_le_intros)
next
  case (ListBackups params)
  then show ?thesis
    by (auto simp: list_task_def task_action_defs eval_nat_numeral Let_def split: sum.splits option.splits
        intro!: steps_le_intros page_steps)
next
  case (GetBackup i)
  then show ?thesis
    by (auto simp: get_task_def miss_task_def fill_then_def store_then_def task_action_defs eval_nat_numeral Let_def split: sum.splits option.splits
        intro!: steps_le_intros fetch_steps)
next
  case (UpdateBackup i req)
  then show ?thesis
    by (auto simp: update_task_def invalidate_then_def drop_list_then_def task_action_defs eval_nat_numeral Let_def
        split: sum.splits option.splits intro!: steps_le_intros)
next
  case (DeleteBackup i)
  then show ?thesis
    by (auto simp: delete_task_def invalidate_then_def drop_list_then_def task_action_defs eval_nat_numeral
        split: sum.splits intro!: steps_le_intros)
next
  case (AnalyzeBackup i)
  then show ?thesis
    by (auto simp: analyze_task_def eval_nat_numeral split: sum.splits intro!: steps_le_intros fetch_steps)
next
  case (EnqueueBackup i)
  then show ?thesis
    by (auto simp: enqueue_task_def publish_task_def map_result_def eval_nat_numeral split: sum.splits
        intro!: steps_le_intros fetch_steps)
qed

lemma endpoint_task_steps: "steps_le 6 (endpoint_task L cx rt c)"
  by (auto simp: endpoint_task_def handler_task_steps split: routed.splits sum.splits intro!: steps_le_map_result)

lemma limit_task_steps: "steps_le n nxt \<Longrightarrow> steps_le (Suc (Suc n)) (limit_task ck c nxt)"
  by (auto simp: limit_task_def task_action_defs split: sum.splits intro!: steps_le_intros)

lemma request_task_steps: "steps_le 9 (request_task L E ck cx rq)"
proof (cases "protected_route E rq = NoRoute")
  case True
  then show ?thesis
    by (auto simp: request_task_def ready_task_def task_action_defs eval_nat_numeral Let_def
        split: routed.splits public_route.splits sum.splits intro!: steps_le_intros)
next
  case False
  have "steps_le 9 (and_then (auth_task L ck hs) (\<lambda>r. case r of Inl response \<Rightarrow> Done (Some response)
      | Inr c \<Rightarrow> limit_task ck c (endpoint_task L cx rt c)))" for hs rt
    using limit_task_steps [OF endpoint_task_steps]
    by (auto simp: auth_task_def task_action_defs eval_nat_numeral split: sum.splits)
  with False show ?thesis by (cases "protected_route E rq") (simp_all add: request_task_def)
qed

end
