(* ===== verification/Layers.thy ===== *)
theory Layers
  imports Handler_Tasks
begin

text \<open>
  The layers \<^verbatim>\<open>create_router\<close> puts around its routes (body limit, compression, timeout, tracing, CORS)
  and the route \<^verbatim>\<open>main\<close> adds outside of them. The layers are code of tower-http, so they are a
  parameter; what the service relies on is their documented behaviour, the locale \<open>tower_layers\<close>.
  The theory shows what a client of the layered service is answered, and that a request the
  timeout gives up on has done all of its write or nothing.
\<close>

section \<open>The layers of the router\<close>

type_synonym ('s, 'f, 'b) endpoint = "'b http_request \<Rightarrow> ('s, 'f http_reply option) task"

record ('s, 'f, 'b) layers =
  ly_body_limit :: "nat \<Rightarrow> ('s, 'f, 'b) endpoint \<Rightarrow> ('s, 'f, 'b) endpoint"
  ly_compression :: "('s, 'f, 'b) endpoint \<Rightarrow> ('s, 'f, 'b) endpoint"
  ly_timeout :: "nat \<Rightarrow> nat \<Rightarrow> ('s, 'f, 'b) endpoint \<Rightarrow> ('s, 'f, 'b) endpoint"
  ly_trace :: "('s, 'f, 'b) endpoint \<Rightarrow> ('s, 'f, 'b) endpoint"
  ly_cors :: "('s, 'f, 'b) endpoint \<Rightarrow> ('s, 'f, 'b) endpoint"

text \<open>\<^verbatim>\<open>layer\<close> wraps what is there: the layer added last sees a request first.\<close>

definition create_router :: "('s, 'f, 'b) layers \<Rightarrow> ('s, 'f, 'b) endpoint \<Rightarrow> ('s, 'f, 'b) endpoint" where
  "create_router W routes =
     ly_cors W (ly_trace W (ly_timeout W 408 30 (ly_compression W (ly_body_limit W (10 * 1024 * 1024) routes))))"

text \<open>The router \<^verbatim>\<open>main\<close> serves; \<open>render\<close> is the text of the metrics recorder.\<close>

definition main_router :: "string \<Rightarrow> ('s, 'f, 'b) endpoint \<Rightarrow> ('s, 'f, 'b) endpoint" where
  "main_router render app rq =
     (if hq_path rq = [''metrics'']
      then Done (Some (if hq_method rq \<in> {GET, HEAD} then reply 200 (TextBody render) else reply 405 NoBody))
      else app rq)"

definition served_task ::
    "('r, 'j, 'q, 'f) libs \<Rightarrow> 'b extractors \<Rightarrow> (('r, 'q) app_state, 'f, 'b) layers \<Rightarrow> string \<Rightarrow> clocks \<Rightarrow> req_ctx \<Rightarrow>
     (('r, 'q) app_state, 'f, 'b) endpoint" where
  "served_task L E W render ck cx = main_router render (create_router W (request_task L E ck cx))"

section \<open>What the layers promise\<close>

text \<open>A decoration of a response: other headers, another encoding of the same body.\<close>

definition decorates :: "('f http_reply \<Rightarrow> 'f http_reply) \<Rightarrow> bool" where
  "decorates g = (\<forall>r. rp_code (g r) = rp_code r \<and> rp_body (g r) = rp_body r)"

lemma decoratesD: "decorates g \<Longrightarrow> rp_code (g r) = rp_code r" "decorates g \<Longrightarrow> rp_body (g r) = rp_body r"
  by (simp_all add: decorates_def)

lemma decorates_id: "decorates (\<lambda>r. r)" "decorates id"
  by (simp_all add: decorates_def)

text \<open>
  \<open>too_large n\<close> is an announced length above \<open>n\<close>, \<open>limited n\<close> the request with its body cut off
  after \<open>n\<close> bytes, \<open>preflight\<close> what the CORS layer answers itself.
\<close>

locale tower_layers =
  fixes W :: "('s, 'f, 'b) layers"
    and too_large :: "nat \<Rightarrow> 'b http_request \<Rightarrow> bool"
    and limited :: "nat \<Rightarrow> 'b http_request \<Rightarrow> 'b http_request"
    and preflight :: "'b http_request \<Rightarrow> bool"
  assumes body_limit: "ly_body_limit W n svc rq =
      (if too_large n rq then Done (Some (reply 413 (TextBody ''length limit exceeded''))) else svc (limited n rq))"
    and limited_head: "\<exists>body. limited n rq = rq\<lparr> hq_body := body \<rparr>"
    and compression: "\<exists>g. decorates g \<and> ly_compression W svc rq = map_result (map_option g) (svc rq)"
    and timeout: "ly_timeout W code secs svc rq = svc rq \<or>
      (\<exists>n. ly_timeout W code secs svc rq = cut_task (Some (reply code NoBody)) (svc rq) n)"
    and trace: "ly_trace W svc rq = svc rq"
    and cors: "\<exists>g. decorates g \<and> ly_cors W svc rq =
      (if preflight rq then Done (Some (g (reply 200 NoBody))) else map_result (map_option g) (svc rq))"
begin

lemma limited_sel:
  "hq_method (limited n rq) = hq_method rq" "hq_path (limited n rq) = hq_path rq"
  "hq_query (limited n rq) = hq_query rq" "hq_headers (limited n rq) = hq_headers rq"
  using limited_head [of n rq] by auto

text \<open>Every request ends up in one of three ways, decorated.\<close>

definition limited_routes :: "('s, 'f, 'b) endpoint \<Rightarrow> ('s, 'f, 'b) endpoint" where
  "limited_routes routes rq =
     (if too_large 10485760 rq then Done (Some (reply 413 (TextBody ''length limit exceeded'')))
      else routes (limited 10485760 rq))"

lemma create_router_cases:
  obtains (preflight) g where "decorates g" "preflight rq" "create_router W routes rq = Done (Some (g (reply 200 NoBody)))"
  | (routed) g g' where "decorates g" "decorates g'" "\<not> preflight rq"
      "create_router W routes rq = map_result (map_option g) (map_result (map_option g') (limited_routes routes rq))"
  | (timed) g g' n where "decorates g" "decorates g'" "\<not> preflight rq"
      "create_router W routes rq = map_result (map_option g)
         (cut_task (Some (reply 408 NoBody)) (map_result (map_option g') (limited_routes routes rq)) n)"
proof -
  let ?timed = "ly_timeout W 408 30 (ly_compression W (ly_body_limit W 10485760 routes))"
  obtain g where g: "decorates g" "create_router W routes rq =
      (if preflight rq then Done (Some (g (reply 200 NoBody))) else map_result (map_option g) (?timed rq))"
    using cors [of "ly_trace W ?timed" rq] by (auto simp: create_router_def trace)
  obtain g' where g': "decorates g'"
    "ly_compression W (ly_body_limit W 10485760 routes) rq = map_result (map_option g') (limited_routes routes rq)"
    using compression [of "ly_body_limit W 10485760 routes" rq] by (auto simp: body_limit limited_routes_def)
  show thesis
  proof (cases "preflight rq")
    case True
    with g show ?thesis by (intro preflight) auto
  next
    case False
    with timeout [of 408 30 "ly_compression W (ly_body_limit W 10485760 routes)" rq] g g' show ?thesis
      by (auto intro: routed timed)
  qed
qed

end

section \<open>A request writes the table once\<close>

lemma quiet_actions:
  "quiet a_db read_config" "quiet a_db (cache_task get)" "quiet a_db (cache_update upd)" "quiet a_db (publish_task L job)"
  "read_stmt run \<Longrightarrow> quiet a_db (stmt_task l run)"
  unfolding task_action_defs publish_task_def
  by (rule quiet_act; auto simp: db_exec_eq read_stmt.exec_read_only
      split: option.splits sum.splits amqp_error.splits)+

lemma once_stmt: "writes_once a_db (stmt_task l run)"
  unfolding stmt_task_def by (rule writes_once_act)

lemma quiet_then:
  "quiet a_db rest \<Longrightarrow> quiet a_db (drop_list_then L c rest)" "quiet a_db rest \<Longrightarrow> quiet a_db (invalidate_then L c i rest)"
  "quiet a_db rest \<Longrightarrow> quiet a_db (fill_then L b rest)"
  unfolding drop_list_then_def invalidate_then_def fill_then_def store_then_def by (intro quiet_and_then quiet_actions; assumption)+

lemma quiet_fetch: "quiet a_db (fetch_task L cx c i)" "quiet a_db (page_task L cx c st limit offset)"
  unfolding fetch_task_def page_task_def
  by (auto intro!: quiet_and_then quiet_actions sel.read_stmt_axioms page.read_stmt_axioms count.read_stmt_axioms
      split: sum.splits)

lemma quiet_handlers:
  "quiet a_db (get_task L cx c i)" "quiet a_db (list_task L cx c params)" "quiet a_db (analyze_task L cx c i)"
  "quiet a_db (enqueue_task L cx c i)"
  unfolding get_task_def miss_task_def list_task_def analyze_task_def enqueue_task_def Let_def
  by (auto simp del: and_then_act split: sum.splits option.splits
      intro!: quiet_and_then quiet_then quiet_fetch quiet_actions(1-4) quiet_act map_result_writes(1))

lemma writes_once_handlers:
  "writes_once a_db (create_task L cx c req)" "writes_once a_db (update_task L cx c i ureq)"
  "writes_once a_db (delete_task L cx c i)"
  unfolding create_task_def update_task_def delete_task_def Let_def
  by (auto split: sum.splits option.splits intro!: writes_once_then_quiet [OF once_stmt] quiet_then)

lemma handler_writes_once: "writes_once a_db (handler_task L cx c call)"
  by (cases call) (auto intro!: map_result_writes(2) writes_once_handlers quiet_once [OF quiet_handlers(4)]
      quiet_once [OF quiet_handlers(1)] quiet_once [OF quiet_handlers(2)] quiet_once [OF quiet_handlers(3)])

lemma request_writes_once: "writes_once a_db (request_task L E ck cx rq)"
proof -
  have "writes_once a_db (endpoint_task L cx rt c)" for rt c
    by (auto simp: endpoint_task_def split: routed.splits sum.splits intro!: map_result_writes(2) handler_writes_once)
  then have "writes_once a_db (limit_task ck c (endpoint_task L cx rt c))" for rt c
    unfolding limit_task_def
    by (auto split: sum.splits prod.splits simp del: and_then_act
        intro!: quiet_then_writes_once quiet_actions quiet_act map_result_writes(2))
  then have "writes_once a_db (and_then (auth_task L ck hs) (\<lambda>r. case r of Inl response \<Rightarrow> Done (Some response)
      | Inr c \<Rightarrow> limit_task ck c (endpoint_task L cx rt c)))" for hs rt
    unfolding auth_task_def by (auto split: sum.splits intro!: quiet_then_writes_once quiet_and_then quiet_actions)
  moreover have "quiet a_db (ready_task L cx)"
    unfolding ready_task_def Let_def
    by (intro quiet_and_then quiet_actions quiet_Done) (simp add: read_stmt_def)
  ultimately show ?thesis
    by (auto simp: request_task_def simp del: and_then_act split: routed.splits public_route.splits sum.splits
        intro!: quiet_once quiet_and_then quiet_actions)
qed

text \<open>
  C9: A request that is given up has done all or nothing. Whatever number of its actions a request
  had performed when the timeout layer, or the client's going away, dropped it: the table is as
  before the request or as the complete request leaves it, for every route and every failure.
\<close>

theorem given_up_request_all_or_nothing:
  "a_db (snd (run_task (cut_task r (request_task L E ck cx rq) n) a)) \<in>
     {a_db a, a_db (snd (handle_request L E ck cx rq a))}"
  using writes_once_cut [OF request_writes_once, of r L E ck cx rq n a] by (simp add: run_request_task)

section \<open>The layered service\<close>

lemma run_map_result_simps:
  "fst (run_task (map_result g t) a) = g (fst (run_task t a))" "snd (run_task (map_result g t) a) = snd (run_task t a)"
  by simp_all

lemma cut_result: "fst (run_task (cut_task r t n) a) = r \<or> run_task (cut_task r t n) a = run_task t a"
proof (induction t arbitrary: n a)
  case (Act f)
  show ?case
  proof (cases n)
    case (Suc m)
    then show ?thesis using Act.IH [of "f a" "fst (f a)" m "snd (f a)"] by (auto simp: prod_set_defs)
  qed simp
qed simp

text \<open>
  C18: What a client of the layered service is answered. Outside the metrics route, a request gets
  200 without effect when it is a preflight; 413 without effect when its announced length is above
  10 MB; 408 with a write that happened as a whole or not at all; and otherwise the status and body
  that the handlers' answer has, with their effect, on the request with its body cut off at 10 MB.
\<close>

theorem layered_responses:
  assumes W: "tower_layers W too_large limited preflight" and path: "hq_path rq \<noteq> [''metrics'']"
    and run: "run_task (served_task L E W render ck cx rq) a = (response, a')"
    and handled: "handle_request L E ck cx (limited 10485760 rq) a = (response0, a0)"
  shows "preflight rq \<and> map_option rp_code response = Some 200 \<and> a' = a \<or>
    \<not> preflight rq \<and> too_large 10485760 rq \<and> map_option rp_code response = Some 413 \<and> a' = a \<or>
    \<not> preflight rq \<and> map_option rp_code response = Some 408 \<and> a_db a' \<in> {a_db a, a_db a0} \<or>
    \<not> preflight rq \<and> \<not> too_large 10485760 rq \<and> a' = a0 \<and>
      map_option (\<lambda>r. (rp_code r, rp_body r)) response = map_option (\<lambda>r. (rp_code r, rp_body r)) response0"
proof -
  let ?routes = "request_task L E ck cx" and ?t = "\<lambda>g'. map_result (map_option g') (tower_layers.limited_routes too_large limited
    (request_task L E ck cx) rq)"
  note lim = tower_layers.limited_routes_def [OF W, of ?routes rq]
  have run: "run_task (create_router W ?routes rq) a = (response, a')"
    using run path by (simp add: served_task_def main_router_def)
  have plain: "too_large 10485760 rq \<and> map_option rp_code r = Some 413 \<and> a2 = a \<or> \<not> too_large 10485760 rq \<and> a2 = a0 \<and>
      map_option (\<lambda>r. (rp_code r, rp_body r)) r = map_option (\<lambda>r. (rp_code r, rp_body r)) response0"
    if "decorates g'" "run_task (?t g') a = (r, a2)" for g' r a2
    using that(2) handled decoratesD [OF that(1)]
    by (cases response0) (auto simp: lim run_request_task split: if_splits)
  have once: "writes_once a_db (?t g')" for g'
    by (rule map_result_writes(2)) (simp add: lim request_writes_once)
  have final: "a_db (snd (run_task (?t g') a)) \<in> {a_db a, a_db a0}" for g'
    using handled by (simp add: lim run_request_task)
  show ?thesis
  proof (cases rule: tower_layers.create_router_cases [OF W, of rq ?routes])
    case (1 g)
    with run decoratesD(1) [OF 1(1)] show ?thesis by auto
  next
    case (2 g g')
    obtain r where r: "run_task (?t g') a = (r, a')" "response = map_option g r"
      using run 2(4) by (cases "run_task (?t g') a") auto
    from plain [OF 2(2) r(1)] r(2) 2(3) decoratesD [OF 2(1)] show ?thesis
      by (auto simp: option.map_comp comp_def)
  next
    case (3 g g' n)
    let ?c = "cut_task (Some (reply 408 NoBody)) (?t g') n"
    obtain r where r: "run_task ?c a = (r, a')" "response = map_option g r"
      using run 3(4) by (cases "run_task ?c a") auto
    have "a_db a' \<in> {a_db a, a_db a0}"
      using writes_once_cut [OF once, of "Some (reply 408 NoBody)" g' n a] final [of g'] r(1) by auto
    moreover have "r = Some (reply 408 NoBody) \<or> run_task (?t g') a = (r, a')"
      using cut_result [of "Some (reply 408 NoBody)" "?t g'" n a] r(1) by auto
    ultimately show ?thesis
    proof (elim disjE)
      assume "run_task (?t g') a = (r, a')"
      from plain [OF 3(2) this] r(2) 3(3) decoratesD [OF 3(1)] show ?thesis
        by (auto simp: option.map_comp comp_def)
    qed (use r(2) 3(3) decoratesD [OF 3(1)] in auto)
  qed
qed

section \<open>A reference implementation\<close>

text \<open>
  It parses \<^verbatim>\<open>Content-Length\<close>, answers preflights, allows every origin, does not compress, and gives
  a request up after \<open>fuel\<close> actions, or never.
\<close>

definition announced_above :: "nat \<Rightarrow> 'b http_request \<Rightarrow> bool" where
  "announced_above n rq = (case hq_headers rq ''Content-Length'' of
     None \<Rightarrow> False | Some s \<Rightarrow> (case parse_u64 s of None \<Rightarrow> False | Some k \<Rightarrow> n < unat k))"

definition is_preflight :: "'b http_request \<Rightarrow> bool" where
  "is_preflight rq = (hq_method rq = OtherMethod \<and> hq_headers rq ''Access-Control-Request-Method'' \<noteq> None)"

definition allow_origin :: "'f http_reply \<Rightarrow> 'f http_reply" where
  "allow_origin r = r\<lparr> rp_headers := (rp_headers r)(''Access-Control-Allow-Origin'' \<mapsto> ''*'') \<rparr>"

definition reference_layers :: "nat option \<Rightarrow> ('s, 'f, 'b) layers" where
  "reference_layers fuel =
     \<lparr> ly_body_limit = (\<lambda>n svc rq.
         if announced_above n rq then Done (Some (reply 413 (TextBody ''length limit exceeded''))) else svc rq),
       ly_compression = (\<lambda>svc. svc),
       ly_timeout = (\<lambda>code secs svc rq. case fuel of None \<Rightarrow> svc rq
         | Some n \<Rightarrow> cut_task (Some (reply code NoBody)) (svc rq) n),
       ly_trace = (\<lambda>svc. svc),
       ly_cors = (\<lambda>svc rq. if is_preflight rq then Done (Some (allow_origin (reply 200 NoBody)))
         else map_result (map_option allow_origin) (svc rq)) \<rparr>"

lemma allow_origin_decorates: "decorates allow_origin"
  by (simp add: decorates_def allow_origin_def)

lemma map_result_id: "map_result (map_option (\<lambda>r. r)) t = t"
  by (induction t) (auto simp: map_result_def option.map_ident prod_set_defs map_prod_def split_beta)

lemma reference_tower:
  "tower_layers (reference_layers fuel :: ('s, 'f, 'b) layers) announced_above (\<lambda>n rq. rq) is_preflight"
proof
  fix svc :: "('s, 'f, 'b) endpoint" and rq :: "'b http_request"
  show "\<exists>g. decorates g \<and> ly_compression (reference_layers fuel) svc rq = map_result (map_option g) (svc rq)"
    by (rule exI [of _ "\<lambda>r. r"]) (simp add: decorates_id map_result_id reference_layers_def)
  show "\<exists>g. decorates g \<and> ly_cors (reference_layers fuel) svc rq =
      (if is_preflight rq then Done (Some (g (reply 200 NoBody))) else map_result (map_option g) (svc rq))"
    by (rule exI [of _ allow_origin]) (simp add: allow_origin_decorates reference_layers_def)
  show "\<exists>body. rq = rq\<lparr> hq_body := body \<rparr>"
    by (rule exI [of _ "hq_body rq"]) simp
qed (auto simp: reference_layers_def split: option.splits)

interpretation reference: tower_layers "reference_layers fuel" announced_above "\<lambda>n rq. rq" is_preflight for fuel
  by (rule reference_tower)

lemma layered_responses_witness:
  "a_db (snd (run_task (served_task demo_libs demo_extractors (reference_layers (Some 2)) ''''
      \<lparr> ck_wall = 0, ck_utc = 0, ck_mono = 0 \<rparr> (demo_cx 1)
      \<lparr> hq_method = GET, hq_path = [''health''], hq_query = [], hq_headers = Map.empty, hq_body = () \<rparr>)
      (demo_app [demo_row 1]))) = [demo_row 1]"
proof -
  let ?ck = "\<lparr> ck_wall = 0, ck_utc = 0, ck_mono = 0 \<rparr>"
    and ?rq = "\<lparr> hq_method = GET, hq_path = [''health''], hq_query = [], hq_headers = Map.empty, hq_body = () \<rparr>"
  obtain response a' where run: "run_task (served_task demo_libs demo_extractors (reference_layers (Some 2)) ''''
      ?ck (demo_cx 1) ?rq) (demo_app [demo_row 1]) = (response, a')" by fastforce
  have rt: "protected_route demo_extractors ?rq = NoRoute"
    "public_route_of (hq_method ?rq) (hq_path ?rq) = Routed HealthRoute"
    by (simp_all add: protected_route_def api_backups_def public_route_of_def)
  have h: "handle_request demo_libs demo_extractors ?ck (demo_cx 1) ?rq (demo_app [demo_row 1]) =
      (Some health, demo_app [demo_row 1])"
    unfolding handle_request_def rt by simp
  have "hq_path ?rq \<noteq> [''metrics'']" by simp
  note r = layered_responses [OF reference_tower this run h]
  have "a_db a' = [demo_row 1]" using r by (elim disjE conjE) (simp_all only: demo_app_sel insert_iff empty_iff simp_thms)
  then show ?thesis by (simp only: run snd_conv)
qed

end
