(* ===== verification/Freshness.thy ===== *)
theory Freshness
  imports Handlers
begin

text \<open>
  The cache and the database together. \<open>cache_fresh\<close> says that everything the cache may answer is
  what the database holds; the REST handlers keep it as long as no answer of an executed statement
  is lost and Redis acknowledges deletions, and then a cached answer cannot be told from an
  uncached one. The lemmas are about one handler each; the properties are at the end.
\<close>

section \<open>Freshness\<close>

text \<open>What the cached list of a tenant must be: the configured page, and the count.\<close>

definition list_view :: "('r, 'j, 'q, 'f) libs \<Rightarrow> app_config \<Rightarrow> table \<Rightarrow> uuid \<Rightarrow> backup list \<times> i64" where
  "list_view L config t tn =
     (page (cached_list_limit config) (cached_list_offset config)
        (lb_order L (cached_list_limit config) (cached_list_offset config) (filter (listed tn None) t)),
      word_of_nat (length (filter (listed tn None) t)))"

definition rows_fresh :: "('r, 'j, 'q, 'f) libs \<Rightarrow> ('r \<Rightarrow> string \<Rightarrow> 'j option) \<Rightarrow> ('r, 'q) app_state \<Rightarrow> bool" where
  "rows_fresh L contents a =
     coherent (may_row (lb_cache L) contents (a_cache a)) (\<lambda>i. row_of i (a_db a))"

definition lists_fresh :: "('r, 'j, 'q, 'f) libs \<Rightarrow> ('r \<Rightarrow> string \<Rightarrow> 'j option) \<Rightarrow> ('r, 'q) app_state \<Rightarrow> bool" where
  "lists_fresh L contents a =
     coherent (may_list (lb_cache L) contents (a_cache a)) (\<lambda>tn. Some (list_view L (a_config a) (a_db a) tn))"

definition cache_fresh :: "('r, 'j, 'q, 'f) libs \<Rightarrow> ('r \<Rightarrow> string \<Rightarrow> 'j option) \<Rightarrow> ('r, 'q) app_state \<Rightarrow> bool" where
  "cache_fresh L contents a = (rows_fresh L contents a \<and> lists_fresh L contents a)"

definition dels_acked :: "('r, 'j, 'q, 'f) libs \<Rightarrow> bool" where
  "dels_acked L = (\<forall>c k. del_ok (lb_cache L) c k)"

definition answered :: "req_ctx \<Rightarrow> bool" where
  "answered cx = (case cx_link cx of Lost m \<Rightarrow> False | _ \<Rightarrow> True)"

lemma fresh_unchanged:
  "cache_fresh L contents a \<Longrightarrow> a_db a' = a_db a \<Longrightarrow> a_cache a' = a_cache a \<Longrightarrow> a_config a' = a_config a \<Longrightarrow>
   cache_fresh L contents a'"
  by (simp add: cache_fresh_def rows_fresh_def lists_fresh_def)

lemma list_view_others:
  assumes "filter (\<lambda>b. b_tenant_id b \<noteq> T) t' = filter (\<lambda>b. b_tenant_id b \<noteq> T) t" and "tn \<noteq> T"
  shows "list_view L config t' tn = list_view L config t tn"
  by (simp add: list_view_def listed_others [OF assms])

lemma fresh_dropped:
  assumes R: "redis_cache (lb_cache L) contents settle" and "dels_acked L" and "cache_fresh L contents a"
    and rows: "\<And>j. j \<noteq> i \<Longrightarrow> row_of j t' = row_of j (a_db a)"
    and others: "filter (\<lambda>b. b_tenant_id b \<noteq> T) t' = filter (\<lambda>b. b_tenant_id b \<noteq> T) (a_db a)"
  shows "cache_fresh L contents (a\<lparr> a_db := t',
      a_cache := cache_invalidate_tenant_backups (lb_cache L)
        (cache_invalidate_backup (lb_cache L) (a_cache a) i) T \<rparr>)"
proof -
  have acked: "del_ok (lb_cache L) c k" for c k using assms(2) by (simp add: dels_acked_def)
  have "coherent (may_row (lb_cache L) contents (cache_invalidate_tenant_backups (lb_cache L)
      (cache_invalidate_backup (lb_cache L) (a_cache a) i) T)) (\<lambda>j. row_of j t')"
    using assms(3) rows acked
    by (intro redis_cache.fresh_rows_drop [OF R, where D = "\<lambda>j. row_of j (a_db a)"]) (auto simp: cache_fresh_def rows_fresh_def)
  moreover have "coherent (may_list (lb_cache L) contents (cache_invalidate_tenant_backups (lb_cache L)
      (cache_invalidate_backup (lb_cache L) (a_cache a) i) T)) (\<lambda>tn. Some (list_view L (a_config a) t' tn))"
    using assms(3) list_view_others [OF others] acked
    by (intro redis_cache.fresh_lists_drop [OF R, where D = "\<lambda>tn. Some (list_view L (a_config a) (a_db a) tn)"])
      (auto simp: cache_fresh_def lists_fresh_def)
  ultimately show ?thesis by (simp add: cache_fresh_def rows_fresh_def lists_fresh_def)
qed

section \<open>The writing handlers\<close>

lemma create_fresh:
  assumes R: "redis_cache (lb_cache L) contents settle" and "dels_acked L" and "answered cx"
    and fresh: "cache_fresh L contents a"
  shows "cache_fresh L contents (snd (create_backup L cx c req a))"
proof (cases "create_backup L cx c req a")
  case (Pair r a')
  show ?thesis
  proof (cases r)
    case (Inl e)
    then have "a' = a"
      using Pair assms(3) by (cases "cx_link cx")
        (auto simp: create_backup_def db_exec_eq answered_def split: sum.splits dest: ins.error_noop)
    with Pair fresh show ?thesis by simp
  next
    case (Inr rp)
    let ?b = "new_row (cx_new_id cx) (cx_now cx) (cl_tenant_id c) (cr_source_path req) (cr_encryption_enabled req)"
    have new: "row_of (b_id ?b) (a_db a) = None"
      and a': "a' = a\<lparr> a_db := a_db a @ [?b],
        a_cache := cache_invalidate_tenant_backups (lb_cache L) (a_cache a) (cl_tenant_id c) \<rparr>"
      using Pair Inr by (auto simp: create_backup_def db_exec_eq new_row_def split: sum.splits
          dest!: pg_exec_Inr sql_insert_Inr)
    have acked: "del_ok (lb_cache L) c k" for c k using assms(2) by (simp add: dels_acked_def)
    have "coherent (may_row (lb_cache L) contents (a_cache a)) (\<lambda>i. row_of i (a_db a @ [?b]))"
      using fresh new by (fastforce simp: cache_fresh_def rows_fresh_def coherent_def find_append)
    then have "rows_fresh L contents a'"
      using redis_cache.fresh_rows_drop_list [OF R] by (simp add: a' rows_fresh_def)
    moreover have "lists_fresh L contents a'"
    proof -
      have "list_view L (a_config a) (a_db a @ [?b]) tn = list_view L (a_config a) (a_db a) tn"
        if "tn \<noteq> cl_tenant_id c" for tn
        using that by (intro list_view_others [of "cl_tenant_id c"]) (auto simp: new_row_def)
      with fresh acked have "coherent (may_list (lb_cache L) contents
          (cache_invalidate_tenant_backups (lb_cache L) (a_cache a) (cl_tenant_id c)))
          (\<lambda>tn. Some (list_view L (a_config a) (a_db a @ [?b]) tn))"
        by (intro redis_cache.fresh_lists_drop_list [OF R, where D = "\<lambda>tn. Some (list_view L (a_config a) (a_db a) tn)"])
          (auto simp: cache_fresh_def lists_fresh_def)
      then show ?thesis by (simp add: a' lists_fresh_def)
    qed
    ultimately show ?thesis using Pair by (simp add: cache_fresh_def)
  qed
qed

lemma update_fresh:
  assumes R: "redis_cache (lb_cache L) contents settle" and "dels_acked L" and "answered cx"
    and fresh: "cache_fresh L contents a" and ok: "table_ok (a_db a)"
  shows "cache_fresh L contents (snd (update_backup L cx c i req a))"
proof -
  let ?run = "sql_update i (cl_tenant_id c) (map_option status_fmt (ur_status req)) (ur_size_bytes req) (cx_now cx)"
  let ?t' = "snd (pg_exec (cx_link cx) ?run (a_db a))"
  have st: "case map_option status_fmt (ur_status req) of None \<Rightarrow> True | Some s \<Rightarrow> status_check s"
    by (simp split: option.splits)
  have dropped: "cache_fresh L contents (a\<lparr> a_db := ?t',
      a_cache := cache_invalidate_tenant_backups (lb_cache L)
        (cache_invalidate_backup (lb_cache L) (a_cache a) i) (cl_tenant_id c) \<rparr>)"
    by (rule fresh_dropped [OF R assms(2) fresh upd_row.exec_find_kept upd.exec_others_kept])
  show ?thesis
  proof (cases "fst (pg_exec (cx_link cx) ?run (a_db a))")
    case (Inl e)
    then have "?t' = a_db a"
      using assms(3) upd.exec_error by (cases "cx_link cx") (auto simp: answered_def dest: updates_error)
    with Inl fresh show ?thesis
      by (auto simp: update_backup_def db_exec_eq Let_def intro: fresh_unchanged)
  next
    case (Inr r)
    with pg_exec_Inr [OF this] have up: "cx_link cx = Up" "fst (?run (a_db a)) = Inr r" by auto
    show ?thesis
    proof (cases r)
      case None
      with up(2) sql_update_eq(1) [OF ok st] have "owned_row i (cl_tenant_id c) (a_db a) = None" by simp
      then have "\<forall>b \<in> set (a_db a). \<not> owned i (cl_tenant_id c) b"
        by (simp add: owned_row_def find_None_iff)
      then have "?t' = a_db a" by (auto simp: up(1) update_rows_def upd_where_none)
      with Inr None fresh show ?thesis
        by (auto simp: update_backup_def db_exec_eq Let_def intro: fresh_unchanged)
    next
      case (Some b)
      with Inr dropped show ?thesis by (simp add: update_backup_def db_exec_eq Let_def)
    qed
  qed
qed

lemma delete_fresh:
  assumes R: "redis_cache (lb_cache L) contents settle" and "dels_acked L" and "answered cx"
    and fresh: "cache_fresh L contents a"
  shows "cache_fresh L contents (snd (delete_backup L cx c i a))"
proof -
  let ?run = "sql_delete i (cl_tenant_id c)"
  let ?t' = "snd (pg_exec (cx_link cx) ?run (a_db a))"
  have dropped: "cache_fresh L contents (a\<lparr> a_db := ?t',
      a_cache := cache_invalidate_tenant_backups (lb_cache L)
        (cache_invalidate_backup (lb_cache L) (a_cache a) i) (cl_tenant_id c) \<rparr>)"
    by (rule fresh_dropped [OF R assms(2) fresh del_row.exec_find_kept del.exec_others_kept])
  show ?thesis
  proof (cases "fst (pg_exec (cx_link cx) ?run (a_db a))")
    case (Inl e)
    then have "?t' = a_db a"
      using assms(3) by (cases "cx_link cx") (auto simp: answered_def sql_delete_def)
    with Inl fresh show ?thesis
      by (auto simp: delete_backup_def db_exec_eq Let_def intro: fresh_unchanged)
  next
    case (Inr n)
    with pg_exec_Inr [OF this] have up: "cx_link cx = Up" "fst (?run (a_db a)) = Inr n" by auto
    show ?thesis
    proof (cases "n = 0")
      case True
      with up(2) have "filter (owned i (cl_tenant_id c)) (a_db a) = []" by (simp add: sql_delete_def)
      then have "?t' = a_db a" by (simp add: up(1) sql_delete_def filter_empty_conv)
      with Inr True fresh show ?thesis
        by (auto simp: delete_backup_def db_exec_eq Let_def intro: fresh_unchanged)
    next
      case False
      with Inr dropped show ?thesis by (simp add: delete_backup_def db_exec_eq Let_def)
    qed
  qed
qed

section \<open>The reading handlers\<close>

lemma owned_row_row_of: "table_ok t \<Longrightarrow> owned_row i tn t = Some b \<Longrightarrow> row_of i t = Some b \<and> b_id b = i \<and> b_tenant_id b = tn"
  by (auto simp: owned_row_def find_owned split: option.splits if_splits dest: row_of_SomeD)

lemma cached_row:
  assumes "redis_cache (lb_cache L) contents settle" and "rows_fresh L contents a"
    and "cache_get_backup (lb_cache L) (a_cache a) i = Some b"
  shows "row_of i (a_db a) = Some b"
  using redis_cache.cached_row_is_row [OF assms(1), of "a_cache a" "\<lambda>i. row_of i (a_db a)" i b] assms(2,3)
  by (simp add: rows_fresh_def)

lemma cached_list:
  assumes "redis_cache (lb_cache L) contents settle" and "lists_fresh L contents a"
    and "cache_get_tenant_backups (lb_cache L) (a_cache a) tn = Some p"
  shows "p = list_view L (a_config a) (a_db a) tn"
  using redis_cache.cached_list_is_list [OF assms(1), of "a_cache a" "\<lambda>tn. Some (list_view L (a_config a) (a_db a) tn)" tn p]
    assms(2,3)
  by (simp add: lists_fresh_def)

lemma get_fresh:
  assumes R: "redis_cache (lb_cache L) contents settle" and fresh: "cache_fresh L contents a" and ok: "table_ok (a_db a)"
  shows "cache_fresh L contents (snd (get_backup L cx c i a))"
proof -
  have fill: "cache_fresh L contents (a\<lparr> a_cache := cache_set_backup (lb_cache L) (Some (a_config a)) (a_cache a) b \<rparr>)"
    if "fst (fetch_owned L cx c i a) = Inr b" for b
  proof -
    have "row_of (b_id b) (a_db a) = Some b"
      using that owned_row_row_of [OF ok, of i "cl_tenant_id c" b] by (auto simp: fetch_owned_Inr)
    with fresh redis_cache.fresh_rows_fill [OF R] redis_cache.fresh_lists_row_fill [OF R] show ?thesis
      by (simp add: cache_fresh_def rows_fresh_def lists_fresh_def)
  qed
  obtain r where f: "fetch_owned L cx c i a = (r, a)"
    using fetch_owned_state by (metis prod.collapse)
  with fill fresh show ?thesis
    by (auto simp: get_backup_def f Let_def split: sum.splits option.splits)
qed

lemma list_fresh:
  assumes R: "redis_cache (lb_cache L) contents settle" and fresh: "cache_fresh L contents a"
  shows "cache_fresh L contents (snd (list_backups L cx c params a))"
proof -
  obtain r where f: "fetch_page L cx c (lp_status params) (list_limit params) (list_offset params) a = (r, a)"
    using fetch_page_state by (metis prod.collapse)
  have fill: "cache_fresh L contents (a\<lparr> a_cache :=
      cache_set_tenant_backups (lb_cache L) (Some (a_config a)) (a_cache a) (cl_tenant_id c) items tot \<rparr>)"
    if "r = Inr (items, tot)" and use: "use_list_cache (a_config a) params" for items tot
  proof -
    have "(items, tot) = list_view L (a_config a) (a_db a) (cl_tenant_id c)"
      using fetch_page_Inr [of L cx c "lp_status params" "list_limit params" "list_offset params" a items tot] f that
      by (simp add: list_view_def use_list_cache_def)
    with fresh redis_cache.fresh_lists_fill [OF R, where D = "\<lambda>tn. Some (list_view L (a_config a) (a_db a) tn)"]
      redis_cache.fresh_rows_list_fill [OF R]
    show ?thesis by (simp add: cache_fresh_def rows_fresh_def lists_fresh_def)
  qed
  with fresh show ?thesis
    by (auto simp: list_backups_def f Let_def split: sum.splits option.splits)
qed

lemma run_handler_fresh:
  assumes "redis_cache (lb_cache L) contents settle" and "dels_acked L" and "answered cx"
    and "cache_fresh L contents a" and "table_ok (a_db a)"
  shows "cache_fresh L contents (snd (run_handler L cx c call a))"
proof (cases call)
  case (AnalyzeBackup i)
  obtain r where "fetch_owned L cx c i a = (r, a)"
    using fetch_owned_state by (metis prod.collapse)
  with AnalyzeBackup assms(4) show ?thesis
    by (auto simp: analyze_backup_def Let_def split: sum.splits option.splits)
next
  case (EnqueueBackup i)
  obtain r where "fetch_owned L cx c i a = (r, a)"
    using fetch_owned_state by (metis prod.collapse)
  with EnqueueBackup assms(4) show ?thesis
    by (auto simp: enqueue_backup_def Let_def intro: fresh_unchanged split: sum.splits option.splits amqp_error.splits)
qed (use assms create_fresh update_fresh delete_fresh get_fresh list_fresh in simp_all)

text \<open>A fresh cache cannot be told from none.\<close>

lemma get_backup_result:
  assumes "redis_cache (lb_cache L) contents settle" and "cache_fresh L contents a" and "table_ok (a_db a)"
    and "cx_link cx = Up"
  shows "fst (get_backup L cx c i a) =
    (case owned_row i (cl_tenant_id c) (a_db a) of
       None \<Rightarrow> Inl (not_found L i) | Some b \<Rightarrow> Inr (reply 200 (BackupBody (response_of b))))"
proof -
  have "owned_row i (cl_tenant_id c) (a_db a) = Some b"
    if "cache_get_backup (lb_cache L) (a_cache a) i = Some b" and "b_tenant_id b = cl_tenant_id c" for b
    using cached_row [OF assms(1) _ that(1)] assms(2,3) that(2)
    by (simp add: owned_row_def find_owned cache_fresh_def)
  then show ?thesis
    using fetch_owned_Up [OF assms(4), of L c i a]
    by (auto simp: get_backup_def Let_def split: option.splits)
qed

lemma list_limit_range: "1 \<le> sint (list_limit params)" "sint (list_limit params) \<le> 100"
  "0 \<le> sint (list_offset params)"
  by (simp_all add: list_limit_def list_offset_def sint_i64_clamp sint_i64_max)

lemma list_backups_result:
  assumes "redis_cache (lb_cache L) contents settle" and "cache_fresh L contents a"
    and "cx_link cx = Up" and "cx_link2 cx = Up"
    and "case lp_status params of None \<Rightarrow> True | Some s \<Rightarrow> text_ok s"
  shows "fst (list_backups L cx c params a) =
    (let rows = filter (listed (cl_tenant_id c) (lp_status params)) (a_db a)
     in Inr (list_reply (page (list_limit params) (list_offset params) (lb_order L (list_limit params) (list_offset params) rows))
          (word_of_nat (length rows)) (list_offset params) (list_limit params)))"
proof -
  have cached: "p = (page (list_limit params) (list_offset params) (lb_order L (list_limit params) (list_offset params) (filter (listed (cl_tenant_id c) (lp_status params)) (a_db a))),
      word_of_nat (length (filter (listed (cl_tenant_id c) (lp_status params)) (a_db a))))"
    if "cache_get_tenant_backups (lb_cache L) (a_cache a) (cl_tenant_id c) = Some p" and "use_list_cache (a_config a) params" for p
    using cached_list [OF assms(1) _ that(1)] assms(2) that(2)
    by (simp add: cache_fresh_def list_view_def use_list_cache_def)
  have page: "fetch_page L cx c (lp_status params) (list_limit params) (list_offset params) a =
      (Inr (page (list_limit params) (list_offset params) (lb_order L (list_limit params) (list_offset params) (filter (listed (cl_tenant_id c) (lp_status params)) (a_db a))),
        word_of_nat (length (filter (listed (cl_tenant_id c) (lp_status params)) (a_db a)))), a)"
    using list_limit_range [of params] by (intro fetch_page_Up assms(3-5)) auto
  show ?thesis
    using cached by (auto simp: list_backups_def page Let_def split: option.splits prod.splits)
qed

section \<open>Sequences of requests\<close>

text \<open>
  Requests handled one after the other, with time passing (\<open>settle\<close>, in which entries may expire)
  before each; the answers in order.
\<close>

type_synonym request = "req_ctx \<times> claims \<times> rest_call"

definition settle_app :: "('r \<Rightarrow> 'r) \<Rightarrow> ('r, 'q) app_state \<Rightarrow> ('r, 'q) app_state" where
  "settle_app settle a = a\<lparr> a_cache := map_option settle (a_cache a) \<rparr>"

definition serve :: "('r, 'j, 'q, 'f) libs \<Rightarrow> ('r \<Rightarrow> 'r) \<Rightarrow> request \<Rightarrow> ('r, 'q) app_state \<Rightarrow>
    'f handled option \<times> ('r, 'q) app_state" where
  "serve L settle rq a = (case rq of (cx, c, call) \<Rightarrow> run_handler L cx c call (settle_app settle a))"

fun serve_all :: "('r, 'j, 'q, 'f) libs \<Rightarrow> ('r \<Rightarrow> 'r) \<Rightarrow> request list \<Rightarrow> ('r, 'q) app_state \<Rightarrow>
    'f handled option list \<times> ('r, 'q) app_state" where
  "serve_all L settle [] a = ([], a)"
| "serve_all L settle (rq # rqs) a =
     (let (r, a') = serve L settle rq a; (rs, a'') = serve_all L settle rqs a' in (r # rs, a''))"

definition without_cache :: "('r, 'q) app_state \<Rightarrow> ('r, 'q) app_state" where
  "without_cache a = a\<lparr> a_cache := None \<rparr>"

text \<open>All statements of the request are answered, and its status filter is valid text.\<close>

fun undisturbed :: "request \<Rightarrow> bool" where
  "undisturbed (cx, c, ListBackups params) =
     (cx_link cx = Up \<and> cx_link2 cx = Up \<and> (case lp_status params of None \<Rightarrow> True | Some s \<Rightarrow> text_ok s))"
| "undisturbed (cx, c, _) = (cx_link cx = Up)"

lemma undisturbed_answered: "undisturbed (cx, c, call) \<Longrightarrow> answered cx"
  by (cases call) (simp_all add: answered_def)

lemma settle_fresh:
  assumes R: "redis_cache (lb_cache L) contents settle" and "cache_fresh L contents a"
  shows "cache_fresh L contents (settle_app settle a)"
proof -
  have s: "contents (settle r) k = Some j \<Longrightarrow> contents r k = Some j" for r k j
    using redis_cache.settle_contents [OF R, of r k] by auto
  have "may_row (lb_cache L) contents (map_option settle (a_cache a)) i b \<Longrightarrow>
      may_row (lb_cache L) contents (a_cache a) i b" for i b
    by (auto simp: may_row_def dest: s)
  moreover have "may_list (lb_cache L) contents (map_option settle (a_cache a)) tn p \<Longrightarrow>
      may_list (lb_cache L) contents (a_cache a) tn p" for tn p
    by (auto simp: may_list_def dest: s)
  ultimately show ?thesis
    using assms(2) by (auto simp: cache_fresh_def rows_fresh_def lists_fresh_def settle_app_def coherent_def)
qed

lemma without_cache_sel [simp]:
  "a_db (without_cache a) = a_db a" "a_config (without_cache a) = a_config a"
  "a_amqp (without_cache a) = a_amqp a" "a_cache (without_cache a) = None"
  by (simp_all add: without_cache_def)

lemma without_cache_fresh [simp]: "cache_fresh L contents (without_cache a)"
  by (simp add: cache_fresh_def rows_fresh_def lists_fresh_def coherent_def may_row_def may_list_def)

lemma without_cache_settle [simp]: "settle_app settle (without_cache a) = without_cache a"
  "without_cache (settle_app settle a) = without_cache a"
  by (simp_all add: settle_app_def without_cache_def)

lemma readers_without_cache:
  "without_cache (snd (get_backup L cx c i a)) = without_cache a"
  "without_cache (snd (list_backups L cx c params a)) = without_cache a"
proof -
  obtain r where f: "fetch_owned L cx c i a = (r, a)"
    using fetch_owned_state by (metis prod.collapse)
  show "without_cache (snd (get_backup L cx c i a)) = without_cache a"
    by (auto simp: get_backup_def f Let_def without_cache_def split: sum.splits option.splits)
  obtain r' where f': "fetch_page L cx c (lp_status params) (list_limit params) (list_offset params) a = (r', a)"
    using fetch_page_state by (metis prod.collapse)
  show "without_cache (snd (list_backups L cx c params a)) = without_cache a"
    by (auto simp: list_backups_def f' Let_def without_cache_def split: sum.splits option.splits)
qed

lemma readers_no_cache:
  "a_cache a = None \<Longrightarrow> snd (get_backup L cx c i a) = a"
  "a_cache a = None \<Longrightarrow> snd (list_backups L cx c params a) = a"
proof -
  assume no: "a_cache a = None"
  have same: "a\<lparr> a_cache := None \<rparr> = a" using no by simp
  obtain r where f: "fetch_owned L cx c i a = (r, a)"
    using fetch_owned_state by (metis prod.collapse)
  show "snd (get_backup L cx c i a) = a"
    using no same by (auto simp: get_backup_def f Let_def cache_get_backup_def cache_set_backup_def split: sum.splits)
  obtain r' where f': "fetch_page L cx c (lp_status params) (list_limit params) (list_offset params) a = (r', a)"
    using fetch_page_state by (metis prod.collapse)
  show "snd (list_backups L cx c params a) = a"
    using no same
    by (auto simp: list_backups_def f' Let_def cache_get_tenant_backups_def cache_set_tenant_backups_def split: sum.splits)
qed

lemma run_handler_without_cache:
  assumes R: "redis_cache (lb_cache L) contents settle" and fresh: "cache_fresh L contents a"
    and ok: "table_ok (a_db a)" and und: "undisturbed (cx, c, call)"
  shows "run_handler L cx c call (without_cache a) =
    (fst (run_handler L cx c call a), without_cache (snd (run_handler L cx c call a)))"
proof (cases call)
  case (CreateBackup req)
  then show ?thesis
    by (auto simp: create_backup_def db_exec_eq without_cache_def cache_invalidate_tenant_backups_def
        split: sum.splits)
next
  case (UpdateBackup i req)
  then show ?thesis
    by (auto simp: update_backup_def db_exec_eq without_cache_def cache_invalidate_tenant_backups_def
        cache_invalidate_backup_def Let_def split: sum.splits option.splits)
next
  case (DeleteBackup i)
  then show ?thesis
    by (auto simp: delete_backup_def db_exec_eq without_cache_def cache_invalidate_tenant_backups_def
        cache_invalidate_backup_def Let_def split: sum.splits)
next
  case (GetBackup i)
  then show ?thesis
    using get_backup_result [OF R fresh ok, where cx = cx and i = i and c = c]
      get_backup_result [where a = "without_cache a" and cx = cx and i = i and c = c, OF R without_cache_fresh] und ok
    by (auto intro!: prod_eqI simp: readers_without_cache readers_no_cache)
next
  case (ListBackups params)
  then show ?thesis
    using list_backups_result [OF R fresh, where cx = cx and params = params and c = c]
      list_backups_result [where a = "without_cache a" and cx = cx and params = params and c = c, OF R without_cache_fresh] und
    by (auto intro!: prod_eqI simp: readers_without_cache readers_no_cache)
next
  case (AnalyzeBackup i)
  then show ?thesis
    using und by (auto simp: analyze_backup_def fetch_owned_Up without_cache_def Let_def split: option.splits)
next
  case (EnqueueBackup i)
  then show ?thesis
    using und
    by (auto simp: enqueue_backup_def fetch_owned_Up without_cache_def Let_def
        split: option.splits sum.splits amqp_error.splits)
qed

lemma serve_all_without_cache:
  assumes R: "redis_cache (lb_cache L) contents settle" and acked: "dels_acked L"
  shows "cache_fresh L contents a \<Longrightarrow> table_ok (a_db a) \<Longrightarrow> \<forall>rq \<in> set rqs. undisturbed rq \<Longrightarrow>
    serve_all L settle rqs (without_cache a) =
      (fst (serve_all L settle rqs a), without_cache (snd (serve_all L settle rqs a))) \<and>
    cache_fresh L contents (snd (serve_all L settle rqs a)) \<and> table_ok (a_db (snd (serve_all L settle rqs a)))"
proof (induction rqs arbitrary: a)
  case (Cons rq rqs)
  obtain cx c call where rq: "rq = (cx, c, call)" by (cases rq)
  let ?s = "settle_app settle a"
  have s: "cache_fresh L contents ?s" "table_ok (a_db ?s)"
    using settle_fresh [OF R Cons.prems(1)] Cons.prems(2) by (simp_all add: settle_app_def)
  have und: "undisturbed (cx, c, call)" using Cons.prems(3) rq by simp
  note step = run_handler_without_cache [OF R s und]
  have "cache_fresh L contents (snd (run_handler L cx c call ?s))"
    by (rule run_handler_fresh [OF R acked undisturbed_answered [OF und] s])
  moreover have "table_ok (a_db (snd (run_handler L cx c call ?s)))"
    using s(2) by (rule run_handler_table_ok)
  moreover have "\<forall>rq \<in> set rqs. undisturbed rq" using Cons.prems(3) by simp
  moreover obtain r a' where run: "run_handler L cx c call ?s = (r, a')" by fastforce
  moreover obtain rs a'' where "serve_all L settle rqs a' = (rs, a'')" by fastforce
  ultimately show ?case
    using Cons.IH [of a'] step by (simp add: serve_def rq)
qed simp

section \<open>Properties\<close>

text \<open>
  C3: The cache is transparent. Start from any state whose cache is fresh (an empty one is) and
  serve any sequence of REST requests of any tenants, with entries expiring at any time: as long as
  the database answers, the same way to the same query on the same rows, and Redis acknowledges
  deletions, every response, and the final state up to the cache, is that of the same service
  without a cache.
\<close>

theorem cache_is_transparent:
  assumes "redis_cache (lb_cache L) contents settle" and "dels_acked L"
    and "cache_fresh L contents a" and "table_ok (a_db a)" and "\<forall>rq \<in> set rqs. undisturbed rq"
  shows "serve_all L settle rqs (without_cache a) =
    (fst (serve_all L settle rqs a), without_cache (snd (serve_all L settle rqs a)))"
  using serve_all_without_cache [OF assms] by (rule conjunct1)

lemma fresh_demo_app: "cache_fresh demo_libs mem_contents (demo_app t)"
  by (simp add: cache_fresh_def rows_fresh_def lists_fresh_def coherent_def may_row_def may_list_def
      mem_contents_def empty_store_def)

lemma dels_acked_demo: "dels_acked demo_libs"
  by (simp add: dels_acked_def)

lemma redis_demo: "redis_cache (lb_cache demo_libs) mem_contents mem_tick"
  by (simp add: mem.redis_cache_axioms)

definition demo_user :: claims where
  "demo_user = demo_claims ''user'' 0"

lemma cache_is_transparent_witness:
  "fst (serve_all demo_libs mem_tick
     [(demo_cx 1, demo_user, GetBackup 1), (demo_cx 2, demo_user, UpdateBackup 1 \<lparr> ur_status = Some Running, ur_size_bytes = None \<rparr>),
      (demo_cx 3, demo_user, GetBackup 1)] (demo_app [demo_row 1])) =
   fst (serve_all demo_libs mem_tick
     [(demo_cx 1, demo_user, GetBackup 1), (demo_cx 2, demo_user, UpdateBackup 1 \<lparr> ur_status = Some Running, ur_size_bytes = None \<rparr>),
      (demo_cx 3, demo_user, GetBackup 1)] (without_cache (demo_app [demo_row 1])))"
  using cache_is_transparent [OF redis_demo dels_acked_demo fresh_demo_app, of "[demo_row 1]"
      "[(demo_cx 1, demo_user, GetBackup 1), (demo_cx 2, demo_user, UpdateBackup 1 \<lparr> ur_status = Some Running, ur_size_bytes = None \<rparr>),
      (demo_cx 3, demo_user, GetBackup 1)]"]
  by simp

text \<open>
  C12: Listing. With the database answering and a cache that holds no stale entry, a list request is
  answered with a page of the caller's rows of the requested status: there is an arrangement of
  exactly these rows, newest first, of which the response shows the stretch from the offset on, as
  long as the limit, in that order. The limit is the requested one brought between 1 and 100, the
  offset the requested one or 0 when that is negative, and the total is the number of all these rows;
  whether or not the answer comes from the cache.
\<close>

theorem list_backups_returns_page:
  assumes "redis_cache (lb_cache L) contents settle" and "cache_fresh L contents a"
    and "planner (lb_order L)"
    and "undisturbed (cx, c, ListBackups params)"
  shows "\<exists>arranged response.
    mset arranged = mset (filter (listed (cl_tenant_id c) (lp_status params)) (a_db a)) \<and>
    sorted_wrt (\<lambda>x y. b_created_at y \<le> b_created_at x) arranged \<and>
    fst (list_backups L cx c params a) = Inr response \<and> rp_code response = 200 \<and>
    rp_body response = ListBody \<lparr>
      lr_items = map response_of (take (nat (sint (list_limit params))) (drop (nat (sint (list_offset params))) arranged)),
      lr_total = word_of_nat (length arranged),
      lr_offset = list_offset params, lr_limit = list_limit params \<rparr> \<and>
    sint (list_limit params) = max 1 (min 100 (sint (lp_limit params))) \<and>
    sint (list_offset params) = max 0 (sint (lp_offset params))"
proof -
  let ?rows = "filter (listed (cl_tenant_id c) (lp_status params)) (a_db a)"
  let ?all = "lb_order L (list_limit params) (list_offset params) ?rows"
  have "fst (list_backups L cx c params a) = Inr (list_reply (page (list_limit params) (list_offset params) ?all)
      (word_of_nat (length ?rows)) (list_offset params) (list_limit params))"
    using list_backups_result [OF assms(1,2), of cx params c] assms(4) by (simp add: Let_def)
  moreover have "sint (list_limit params) = max 1 (min 100 (sint (lp_limit params)))"
    "sint (list_offset params) = max 0 (sint (lp_offset params))"
    by (simp_all add: list_limit_def list_offset_def sint_i64_clamp sint_i64_max)
  ultimately show ?thesis
    using planner.ord_rows [OF assms(3)] planner.ord_desc [OF assms(3)] planner.length_ord [OF assms(3)]
    by (intro exI [of _ ?all]) (auto simp: list_reply_def page_def)
qed

lemma list_backups_returns_page_witness:
  "\<exists>response. fst (list_backups demo_libs (demo_cx 1) demo_user (list_params_of None (Some 500) None) (demo_app [demo_row 1])) =
     Inr response \<and> rp_code response = 200"
  using list_backups_returns_page [OF redis_demo fresh_demo_app, of "demo_cx 1" demo_user
      "list_params_of None (Some 500) None" "[demo_row 1]"] created_desc.planner_axioms
  by (auto simp: list_params_of_def)

text \<open>What a list response shows.\<close>

definition items_of :: "'f handled \<Rightarrow> 'f backup_response list" where
  "items_of r =
     (case r of
        Inr response \<Rightarrow> (case rp_body response of ListBody l \<Rightarrow> lr_items l | _ \<Rightarrow> [])
      | Inl e \<Rightarrow> [])"

lemma list_page_items:
  assumes "redis_cache (lb_cache L) contents settle" and "cache_fresh L contents a"
    and "cx_link cx = Up" and "cx_link2 cx = Up" and "case st of None \<Rightarrow> True | Some s \<Rightarrow> text_ok s"
    and l: "1 \<le> l" "l \<le> 100" and k: "k < 2 ^ 63"
  shows "items_of (fst (list_backups L cx c \<lparr> lp_offset = word_of_nat k, lp_limit = word_of_nat l, lp_status = st \<rparr> a)) =
    map response_of (page (word_of_nat l) (word_of_nat k)
      (lb_order L (word_of_nat l) (word_of_nat k) (filter (listed (cl_tenant_id c) st) (a_db a))))"
proof -
  let ?p = "\<lparr> lp_offset = word_of_nat k, lp_limit = word_of_nat l, lp_status = st \<rparr>"
  have sk: "sint (word_of_nat k :: i64) = int k" using k by (rule sint_i64_of_nat)
  have sl: "sint (word_of_nat l :: i64) = int l" using l(2) by (intro sint_i64_of_nat) simp
  have o: "list_offset ?p = word_of_nat k" using sk by (simp add: list_offset_def i64_max_def)
  have m: "list_limit ?p = word_of_nat l" using sl l by (simp add: list_limit_def i64_clamp_def)
  have "fst (list_backups L cx c ?p a) = Inr (list_reply (page (list_limit ?p) (list_offset ?p)
      (lb_order L (list_limit ?p) (list_offset ?p) (filter (listed (cl_tenant_id c) st) (a_db a))))
      (word_of_nat (length (filter (listed (cl_tenant_id c) st) (a_db a)))) (list_offset ?p) (list_limit ?p))"
    using list_backups_result [OF assms(1,2,3,4), of ?p c] assms(5) by (simp add: Let_def)
  then show ?thesis unfolding o m by (simp add: items_of_def list_reply_def)
qed

text \<open>
  C21: Paging. When the cache holds no stale entry and no two of the rows listed were created at the
  same time, requesting the pages of one size one after the other gives every matching row exactly
  as often as it is stored: the items of the first \<open>n\<close> pages, concatenated, are the first \<open>n * l\<close>
  of all matching rows, newest first.
\<close>

theorem list_pages_tile:
  assumes "redis_cache (lb_cache L) contents settle" and "cache_fresh L contents a" and P: "planner (lb_order L)"
    and "cx_link cx = Up" and "cx_link2 cx = Up" and "case st of None \<Rightarrow> True | Some s \<Rightarrow> text_ok s"
    and distinct: "inj_on b_created_at {b \<in> set (a_db a). listed (cl_tenant_id c) st b}"
    and l: "1 \<le> l" "l \<le> 100" and n: "n * l < 2 ^ 63"
  shows "concat (map (\<lambda>k. items_of (fst (list_backups L cx c
      \<lparr> lp_offset = word_of_nat (k * l), lp_limit = word_of_nat l, lp_status = st \<rparr> a))) [0..<n]) =
    map response_of (take (n * l) (order_created_desc (filter (listed (cl_tenant_id c) st) (a_db a))))"
proof -
  let ?rows = "filter (listed (cl_tenant_id c) st) (a_db a)"
  have ord: "lb_order L lim off ?rows = order_created_desc ?rows" for lim off
    using distinct by (intro planner.ord_unique [OF P]) simp
  have "items_of (fst (list_backups L cx c
      \<lparr> lp_offset = word_of_nat (k * l), lp_limit = word_of_nat l, lp_status = st \<rparr> a)) =
      map response_of (page (word_of_nat l) (word_of_nat (k * l)) (order_created_desc ?rows))" if "k < n" for k
  proof -
    have "k * l \<le> n * l" using that by simp
    with n have "k * l < 2 ^ 63" by linarith
    from list_page_items [OF assms(1,2,4-6) l this] show ?thesis by (simp add: ord)
  qed
  then have "concat (map (\<lambda>k. items_of (fst (list_backups L cx c
      \<lparr> lp_offset = word_of_nat (k * l), lp_limit = word_of_nat l, lp_status = st \<rparr> a))) [0..<n]) =
    map response_of (concat (map (\<lambda>k. page (word_of_nat l) (word_of_nat (k * l)) (order_created_desc ?rows)) [0..<n]))"
    unfolding map_concat map_map comp_def by (intro arg_cong [where f = concat] map_cong refl) simp_all
  then show ?thesis using pages_take [of l n "order_created_desc ?rows"] l n by simp
qed

lemma list_pages_tile_witness:
  "concat (map (\<lambda>k. items_of (fst (list_backups demo_libs (demo_cx 1) demo_user
      \<lparr> lp_offset = word_of_nat (k * 1), lp_limit = word_of_nat 1, lp_status = None \<rparr> (demo_app [demo_row 1])))) [0..<2]) =
   [response_of (demo_row 1)]"
  using list_pages_tile [OF redis_demo fresh_demo_app, of "demo_cx 1" None "[demo_row 1]" demo_user 1 2]
    created_desc.planner_axioms
  by (simp add: listed_def demo_user_def order_created_desc_def inj_on_def)

text \<open>
  A server that orders rows with equal times by the page asked for: the two rows \<open>x\<close> and \<open>y\<close> change
  places whenever \<open>y\<close> would be on the page. As a planner it is within its rights.
\<close>

definition swap_rows :: "backup \<Rightarrow> backup \<Rightarrow> backup \<Rightarrow> backup" where
  "swap_rows x y b = (if b = x then y else if b = y then x else b)"

definition evasive_order :: "backup \<Rightarrow> backup \<Rightarrow> i64 \<Rightarrow> i64 \<Rightarrow> table \<Rightarrow> table" where
  "evasive_order x y l f xs =
     (let s = order_created_desc xs
      in if y \<in> set (page l f s) \<and> count (mset xs) x = count (mset xs) y \<and> b_created_at x = b_created_at y
         then map (swap_rows x y) s else s)"

lemma mset_swap_rows: "count (mset xs) x = count (mset xs) y \<Longrightarrow> mset (map (swap_rows x y) xs) = mset xs"
proof (rule multiset_eqI)
  fix b
  assume eq: "count (mset xs) x = count (mset xs) y"
  have "count (mset (map (swap_rows x y) xs)) b = count (mset xs) (swap_rows x y b)"
    by (induction xs) (auto simp: swap_rows_def)
  with eq show "count (mset (map (swap_rows x y) xs)) b = count (mset xs) b"
    by (simp add: swap_rows_def split: if_splits)
qed

lemma evasive_planner: "planner (evasive_order x y)"
proof
  fix l f xs
  show "mset (evasive_order x y l f xs) = mset xs"
    using created_desc.ord_rows [of xs] mset_swap_rows [of "order_created_desc xs" x y]
    by (auto simp: evasive_order_def Let_def)
  have "b_created_at x = b_created_at y \<Longrightarrow> b_created_at (swap_rows x y b) = b_created_at b" for b
    by (simp add: swap_rows_def)
  with created_desc.ord_desc [of xs]
  show "sorted_wrt (\<lambda>a b. b_created_at b \<le> b_created_at a) (evasive_order x y l f xs)"
    by (auto simp: evasive_order_def Let_def sorted_wrt_map)
qed

lemma evasive_page:
  assumes "distinct xs" and "x \<in> set xs" and "y \<in> set xs" and "x \<noteq> y" and "b_created_at x = b_created_at y"
  shows "y \<notin> set (page 1 off (evasive_order x y 1 off xs))"
proof (cases "y \<in> set (page 1 off (order_created_desc xs))")
  case True
  have one: "page 1 off zs = take 1 (drop (nat (sint off)) zs)" for zs :: "backup list"
    by (simp add: page_def)
  from True have "page 1 off (order_created_desc xs) = [y]"
    unfolding one by (cases "drop (nat (sint off)) (order_created_desc xs)") auto
  then have "page 1 off (map (swap_rows x y) (order_created_desc xs)) = [x]"
    unfolding one by (simp add: drop_map take_map swap_rows_def)
  with True assms show ?thesis
    by (simp add: evasive_order_def distinct_count_atmost_1)
next
  case False
  then show ?thesis by (simp add: evasive_order_def)
qed

text \<open>
  C38: Paging may lose a row. The list is ordered by creation time alone: of two rows created at the
  same time, the database may put either first, and may choose differently for each page. So there
  is a behaviour of the database, within what \<^verbatim>\<open>ORDER BY created_at DESC\<close> promises, under which a
  client that walks through the pages of size one meets one of the two nowhere, at no offset,
  though every page counts it in its total.
\<close>

theorem tied_row_on_no_page:
  assumes ok: "table_ok (a_db a)" and rows: "x \<in> set (a_db a)" "y \<in> set (a_db a)" "x \<noteq> y"
    and tied: "b_created_at x = b_created_at y"
    and owner: "b_tenant_id x = cl_tenant_id c" "b_tenant_id y = cl_tenant_id c"
    and up: "cx_link cx = Up" "cx_link2 cx = Up" and uncached: "cached_list_limit (a_config a) \<noteq> 1"
  shows "\<exists>ord. planner ord \<and> (\<forall>off < 2 ^ 63.
    (\<exists>shown. fst (list_backups (L\<lparr> lb_order := ord \<rparr>) cx c
        \<lparr> lp_offset = word_of_nat off, lp_limit = 1, lp_status = None \<rparr> a) = Inr (reply 200 (ListBody shown)) \<and>
      lr_total shown = word_of_nat (length (filter (\<lambda>b. b_tenant_id b = cl_tenant_id c) (a_db a))) \<and>
      b_id y \<notin> r_id ` set (lr_items shown)))"
proof (rule exI [of _ "evasive_order x y"], rule conjI [OF evasive_planner], intro allI impI)
  fix off :: nat
  assume off: "off < 2 ^ 63"
  let ?L = "L\<lparr> lb_order := evasive_order x y \<rparr>" and ?off = "word_of_nat off :: i64"
  let ?p = "\<lparr> lp_offset = ?off, lp_limit = 1, lp_status = None \<rparr>"
  let ?rows = "filter (\<lambda>b. b_tenant_id b = cl_tenant_id c) (a_db a)"
  let ?page = "page 1 ?off (evasive_order x y 1 ?off ?rows)"
  have lp: "list_limit ?p = 1" "list_offset ?p = ?off"
    using off by (simp_all add: list_limit_def list_offset_def i64_clamp_def i64_max_def)
  have sel: "listed (cl_tenant_id c) None = (\<lambda>b. b_tenant_id b = cl_tenant_id c)"
    by (simp add: fun_eq_iff listed_def)
  let ?shown = "\<lparr> lr_items = map response_of ?page, lr_total = word_of_nat (length ?rows), lr_offset = ?off, lr_limit = 1 \<rparr>"
  have "fst (list_backups ?L cx c ?p a) = Inr (reply 200 (ListBody ?shown))"
    using fetch_page_Up [OF up, of 1 ?off None ?L c a] off uncached
    by (simp add: list_backups_def lp use_list_cache_def sel Let_def list_reply_def)
  moreover have "y \<notin> set ?page"
    using ok rows tied owner by (intro evasive_page) (auto simp: table_ok_def distinct_map)
  moreover have "set ?page \<subseteq> set (a_db a)"
    using planner.page_rows [OF evasive_planner, of 1 ?off x y 1 ?off ?rows] by auto
  then have "b_id y \<notin> b_id ` set ?page"
    using \<open>y \<notin> set ?page\<close> ok rows(2) by (auto simp: table_ok_def distinct_map dest: inj_onD)
  ultimately show "\<exists>shown. fst (list_backups ?L cx c ?p a) = Inr (reply 200 (ListBody shown)) \<and>
      lr_total shown = word_of_nat (length ?rows) \<and> b_id y \<notin> r_id ` set (lr_items shown)"
    by (intro exI [of _ ?shown]) (simp add: image_image response_of_def)
qed

lemma tied_row_on_no_page_witness:
  "\<exists>ord. planner ord \<and> (\<forall>off < 2 ^ 63.
    (\<exists>shown. fst (list_backups (demo_libs\<lparr> lb_order := ord \<rparr>) (demo_cx 1) demo_user
        \<lparr> lp_offset = word_of_nat off, lp_limit = 1, lp_status = None \<rparr> (demo_app [demo_row 1, demo_row 2])) =
        Inr (reply 200 (ListBody shown)) \<and> lr_total shown = 2 \<and> 2 \<notin> r_id ` set (lr_items shown)))"
proof -
  have ok: "table_ok [demo_row 1, demo_row 2]" by (simp add: table_ok_def status_check_def)
  have "b_id (demo_row 1) \<noteq> b_id (demo_row 2)" by simp
  then have "demo_row 1 \<noteq> demo_row 2" by metis
  with ok tied_row_on_no_page [of "demo_app [demo_row 1, demo_row 2]" "demo_row 1" "demo_row 2" demo_user "demo_cx 1" demo_libs]
  show ?thesis by (simp add: demo_user_def dev_config_def)
qed

text \<open>
  A GET that finds no entry answers what the database holds; a write whose deletion of the entry
  Redis acknowledges leaves no entry.
\<close>

lemma get_backup_miss:
  "cache_get_backup (lb_cache L) (a_cache a) i = None \<Longrightarrow> cx_link cx = Up \<Longrightarrow>
   fst (get_backup L cx c i a) =
     (case owned_row i (cl_tenant_id c) (a_db a) of
        None \<Rightarrow> Inl (not_found L i) | Some b \<Rightarrow> Inr (reply 200 (BackupBody (response_of b))))"
  using fetch_owned_Up [of cx L c i a] by (auto simp: get_backup_def Let_def split: option.splits)

text \<open>
  C10: A tenant reads its own update. After a PATCH that was answered with success and whose deletion
  of the row's cache entry Redis acknowledged, the response and a GET of the same backup by the same
  tenant that reaches the database give the row with the requested fields replaced, the others
  kept, and the time of the update; whatever the cache held before, stale or not.
\<close>

theorem update_is_read_back:
  assumes R: "redis_cache (lb_cache L) contents settle"
    and acked: "del_ok (lb_cache L) (a_cache a) (row_key (lb_cache L) i)" and ok: "table_ok (a_db a)"
    and upd: "update_backup L cx c i req a = (Inr response, a')" and up: "cx_link cx' = Up"
  shows "\<exists>b b'. owned_row i (cl_tenant_id c) (a_db a) = Some b \<and>
    b' = b\<lparr> b_status := (case ur_status req of None \<Rightarrow> b_status b | Some s \<Rightarrow> status_fmt s),
            b_size_bytes := (case ur_size_bytes req of None \<Rightarrow> b_size_bytes b | Some n \<Rightarrow> n),
            b_updated_at := cx_now cx \<rparr> \<and>
    response = reply 200 (BackupBody (response_of b')) \<and>
    fst (get_backup L cx' c i a') = Inr (reply 200 (BackupBody (response_of b')))"
proof -
  let ?st = "map_option status_fmt (ur_status req)"
  have st: "case ?st of None \<Rightarrow> True | Some s \<Rightarrow> status_check s" by (simp split: option.splits)
  have link: "cx_link cx = Up"
    using upd by (cases "cx_link cx") (auto simp: update_backup_def db_exec_eq Let_def)
  note sql = sql_update_eq [OF ok st, of i "cl_tenant_id c" "ur_size_bytes req" "cx_now cx"]
  obtain b where b: "owned_row i (cl_tenant_id c) (a_db a) = Some b"
    and resp: "response = reply 200 (BackupBody (response_of (coalesce_row ?st (ur_size_bytes req) (cx_now cx) b)))"
    and cache: "a_cache a' = cache_invalidate_tenant_backups (lb_cache L)
      (cache_invalidate_backup (lb_cache L) (a_cache a) i) (cl_tenant_id c)"
    using upd sql(1) by (auto simp: update_backup_def db_exec_eq link Let_def split: option.splits)
  have "owned_row i (cl_tenant_id c) (a_db a') =
      Some (coalesce_row ?st (ur_size_bytes req) (cx_now cx) b)"
    using sql(2) b update_db [of L cx c i req a] upd link by simp
  moreover have "cache_get_backup (lb_cache L) (a_cache a') i = None"
    unfolding cache by (rule redis_cache.dropped_row_misses [OF R acked])
  ultimately have "fst (get_backup L cx' c i a') =
      Inr (reply 200 (BackupBody (response_of (coalesce_row ?st (ur_size_bytes req) (cx_now cx) b))))"
    using get_backup_miss [OF _ up, of L a' i c] by simp
  moreover have "coalesce_row ?st (ur_size_bytes req) (cx_now cx) b =
      b\<lparr> b_status := (case ur_status req of None \<Rightarrow> b_status b | Some s \<Rightarrow> status_fmt s),
         b_size_bytes := (case ur_size_bytes req of None \<Rightarrow> b_size_bytes b | Some n \<Rightarrow> n),
         b_updated_at := cx_now cx \<rparr>"
    by (simp add: coalesce_row_def or_keep_def split: option.splits)
  ultimately show ?thesis using b resp by auto
qed

lemma update_is_read_back_witness:
  "\<exists>response a'. update_backup demo_libs (demo_cx 2) demo_user 1 \<lparr> ur_status = Some Running, ur_size_bytes = None \<rparr>
     (demo_app [demo_row 1]) = (Inr response, a') \<and> is_ok (fst (get_backup demo_libs (demo_cx 3) demo_user 1 a'))"
proof -
  obtain response a' where u: "update_backup demo_libs (demo_cx 2) demo_user 1
      \<lparr> ur_status = Some Running, ur_size_bytes = None \<rparr> (demo_app [demo_row 1]) = (Inr response, a')"
    by (simp add: update_backup_def db_exec_eq sql_update_def update_rows_def owned_def demo_user_def Let_def)
  from update_is_read_back [OF redis_demo _ _ u, of "demo_cx 3"] u show ?thesis
    by fastforce
qed

text \<open>
  C20: A deleted backup is gone. After a DELETE that was answered with success and whose deletion of
  the row's cache entry Redis acknowledged, a GET of the same backup by the same tenant that reaches
  the database returns 404, whatever was cached before, stale or not; no other row was touched.
\<close>

theorem delete_is_final:
  assumes R: "redis_cache (lb_cache L) contents settle"
    and acked: "del_ok (lb_cache L) (a_cache a) (row_key (lb_cache L) i)" and ok: "table_ok (a_db a)"
    and del: "delete_backup L cx c i a = (Inr response, a')" and up: "cx_link cx' = Up"
  shows "owned_row i (cl_tenant_id c) (a_db a) \<noteq> None \<and> rp_code response = 204 \<and>
    a_db a' = filter (\<lambda>b. b_id b \<noteq> i) (a_db a) \<and>
    fst (get_backup L cx' c i a') = Inl (not_found L i)"
proof -
  have link: "cx_link cx = Up"
    using del by (cases "cx_link cx") (auto simp: delete_backup_def db_exec_eq Let_def)
  note sql = sql_delete_eq [OF ok, of i "cl_tenant_id c"]
  have own: "owned_row i (cl_tenant_id c) (a_db a) \<noteq> None" and code: "rp_code response = 204"
    and cache: "a_cache a' = cache_invalidate_tenant_backups (lb_cache L)
      (cache_invalidate_backup (lb_cache L) (a_cache a) i) (cl_tenant_id c)"
    using del sql(1) by (auto simp: delete_backup_def db_exec_eq link Let_def split: if_splits)
  have db: "a_db a' = snd (sql_delete i (cl_tenant_id c) (a_db a))"
    using delete_db [of L cx c i a] del link by simp
  obtain b where b: "row_of i (a_db a) = Some b" "b_tenant_id b = cl_tenant_id c"
    using own owned_row_row_of [OF ok, of i "cl_tenant_id c"] by auto
  have "owned i (cl_tenant_id c) x \<longleftrightarrow> b_id x = i" if "x \<in> set (a_db a)" for x
    using that b row_of_member [OF ok that] by (auto simp: owned_def)
  then have rows: "a_db a' = filter (\<lambda>b. b_id b \<noteq> i) (a_db a)"
    by (auto simp: db sql_delete_def intro!: filter_cong)
  have "cache_get_backup (lb_cache L) (a_cache a') i = None"
    unfolding cache by (rule redis_cache.dropped_row_misses [OF R acked])
  then have "fst (get_backup L cx' c i a') = Inl (not_found L i)"
    using get_backup_miss [OF _ up, of L a' i c] sql(2) db by simp
  with own code rows show ?thesis by simp
qed

lemma delete_is_final_witness:
  "\<exists>response a'. delete_backup demo_libs (demo_cx 2) demo_user 1 (demo_app [demo_row 1]) = (Inr response, a') \<and>
     a_db a' = [] \<and> \<not> is_ok (fst (get_backup demo_libs (demo_cx 3) demo_user 1 a'))"
proof -
  obtain response a' where d: "delete_backup demo_libs (demo_cx 2) demo_user 1 (demo_app [demo_row 1]) = (Inr response, a')"
    by (simp add: delete_backup_def db_exec_eq sql_delete_def owned_def demo_user_def Let_def)
  from delete_is_final [OF redis_demo _ _ d, of "demo_cx 3"] d show ?thesis
    by fastforce
qed

text \<open>
  C31: A lost answer leaves the cache stale. When the answer of a PATCH's statement is lost after the
  database executed it, the handler returns its error before it reaches the invalidation: the
  client is told 500, the row has changed, and a GET keeps returning the old row from the cache.
\<close>

theorem lost_update_leaves_stale_entry:
  assumes ok: "table_ok (a_db a)"
    and cached: "cache_get_backup (lb_cache L) (a_cache a) i = Some b"
    and row: "owned_row i (cl_tenant_id c) (a_db a) = Some b" and lost: "cx_link cx = Lost m"
  shows "case update_backup L cx c i req a of (r, a') \<Rightarrow>
    r = Inl (Database (PgConnection m)) \<and>
    owned_row i (cl_tenant_id c) (a_db a') =
      Some (coalesce_row (map_option status_fmt (ur_status req)) (ur_size_bytes req) (cx_now cx) b) \<and>
    fst (get_backup L cx' c i a') = Inr (reply 200 (BackupBody (response_of b)))"
proof -
  let ?st = "map_option status_fmt (ur_status req)"
  have st: "case ?st of None \<Rightarrow> True | Some s \<Rightarrow> status_check s" by (simp split: option.splits)
  have "b_tenant_id b = cl_tenant_id c" using owned_row_row_of [OF ok row] by simp
  with cached sql_update_eq(2) [OF ok st, of i "cl_tenant_id c" "ur_size_bytes req" "cx_now cx"] row lost
  show ?thesis
    by (simp add: update_backup_def db_exec_eq Let_def get_backup_def)
qed

lemma lost_update_leaves_stale_entry_witness:
  "\<exists>r a'. update_backup demo_libs ((demo_cx 2)\<lparr> cx_link := Lost ''reset'' \<rparr>) demo_user 1
       \<lparr> ur_status = Some Failed, ur_size_bytes = None \<rparr> (snd (get_backup demo_libs (demo_cx 1) demo_user 1 (demo_app [demo_row 1]))) = (r, a') \<and>
     map_option b_status (owned_row 1 demo_tenant (a_db a')) = Some ''failed'' \<and>
     fst (get_backup demo_libs (demo_cx 3) demo_user 1 a') = Inr (reply 200 (BackupBody (response_of (demo_row 1))))"
proof -
  let ?a = "snd (get_backup demo_libs (demo_cx 1) demo_user 1 (demo_app [demo_row 1]))"
  have db: "a_db ?a = [demo_row 1]" by simp
  have own: "owned_row 1 (cl_tenant_id demo_user) [demo_row 1] = Some (demo_row 1)"
    by (simp add: owned_row_def owned_def demo_user_def)
  have cached: "cache_get_backup (lb_cache demo_libs) (a_cache ?a) 1 = Some (demo_row 1)"
    using own by (simp add: get_backup_def fetch_owned_Up cache_get_backup_def cache_set_backup_def cache_ttl_def ok_def
        mem_contents_def empty_store_def dev_config_def)
  from lost_update_leaves_stale_entry [of ?a demo_libs 1 "demo_row 1" demo_user "(demo_cx 2)\<lparr> cx_link := Lost ''reset'' \<rparr>" "''reset''"
      "\<lparr> ur_status = Some Failed, ur_size_bytes = None \<rparr>" "demo_cx 3"] own cached
  show ?thesis by (auto simp: db demo_user_def coalesce_row_def split: prod.splits)
qed

end
