(* ===== verification/Grpc_Service.thy ===== *)
theory Grpc_Service
  imports Backup_Table Uuid_Text
begin

text \<open>
  \<^verbatim>\<open>crates/backup-service/src/grpc.rs\<close> and the messages of \<^verbatim>\<open>proto/backup.proto\<close>: the two calls
  by which the worker reports. The service holds the same database as the REST handlers but not
  their cache. The texts of database errors are a parameter.
\<close>

section \<open>Messages\<close>

record status_update =
  su_backup_id :: string
  su_status :: string

record 'f processing_result =
  pr_backup_id :: string
  pr_status :: string
  pr_size_bytes :: i64
  pr_entropy :: 'f
  pr_suspicious :: bool
  pr_error_message :: string

record grpc_ack =
  ak_success :: bool
  ak_message :: string

datatype grpc_error = InvalidArgument string | GrpcInternal string | GrpcNotFound string | Transport string

text \<open>The two counters \<^verbatim>\<open>backup_jobs_processed_total\<close>, by status.\<close>

record job_metrics =
  m_success :: u64
  m_failure :: u64

record grpc_ctx =
  gx_uuids :: uuid_ops
  gx_pg_text :: "pg_error \<Rightarrow> string"
  gx_link :: link
  gx_now :: micros

section \<open>The calls\<close>

definition parse_backup_id :: "grpc_ctx \<Rightarrow> string \<Rightarrow> grpc_error + uuid" where
  "parse_backup_id X s = map_err (\<lambda>e. InvalidArgument (''invalid backup_id: '' @ e)) (uu_parse (gx_uuids X) s)"

definition grpc_exec :: "grpc_ctx \<Rightarrow> 'a stmt \<Rightarrow> table \<Rightarrow> (grpc_error + 'a) \<times> table" where
  "grpc_exec X run t =
     (let (r, t') = pg_exec (gx_link X) run t
      in (map_err (\<lambda>e. GrpcInternal (''database error: '' @ gx_pg_text X e)) r, t'))"

definition update_status :: "grpc_ctx \<Rightarrow> status_update \<Rightarrow> table \<Rightarrow> (grpc_error + grpc_ack) \<times> table" where
  "update_status X msg t =
     (case parse_backup_id X (su_backup_id msg) of
        Inl e \<Rightarrow> (Inl e, t)
      | Inr i \<Rightarrow>
          (case grpc_exec X (sql_set_status i (su_status msg) (gx_now X)) t of
             (Inl e, t) \<Rightarrow> (Inl e, t)
           | (Inr affected, t) \<Rightarrow>
               if affected = 0
               then (Inl (GrpcNotFound (''backup '' @ uu_fmt (gx_uuids X) i @ '' not found'')), t)
               else (Inr \<lparr> ak_success = True, ak_message = ''status updated'' \<rparr>, t)))"

definition report_result ::
    "grpc_ctx \<Rightarrow> 'f processing_result \<Rightarrow> table \<times> job_metrics \<Rightarrow> (grpc_error + grpc_ack) \<times> table \<times> job_metrics" where
  "report_result X res st =
     (case st of (t, m) \<Rightarrow>
       (case parse_backup_id X (pr_backup_id res) of
          Inl e \<Rightarrow> (Inl e, t, m)
        | Inr i \<Rightarrow>
            if pr_status res = ''completed''
            then (case grpc_exec X (sql_complete i (pr_size_bytes res) (gx_now X)) t of
                    (Inl e, t) \<Rightarrow> (Inl e, t, m)
                  | (Inr _, t) \<Rightarrow>
                      (Inr \<lparr> ak_success = True, ak_message = ''result recorded'' \<rparr>,
                       t, m\<lparr> m_success := m_success m + 1 \<rparr>))
            else (case grpc_exec X (sql_fail i (gx_now X)) t of
                    (Inl e, t) \<Rightarrow> (Inl e, t, m)
                  | (Inr _, t) \<Rightarrow>
                      (Inr \<lparr> ak_success = True, ak_message = ''result recorded'' \<rparr>,
                       t, m\<lparr> m_failure := m_failure m + 1 \<rparr>))))"

section \<open>What the calls change\<close>

lemma grpc_exec_eq: "grpc_exec X run t =
   (map_err (\<lambda>e. GrpcInternal (''database error: '' @ gx_pg_text X e)) (fst (pg_exec (gx_link X) run t)),
    snd (pg_exec (gx_link X) run t))"
  by (simp add: grpc_exec_def split: prod.splits)

lemma parse_backup_id_fmt:
  "uuid_text U \<Longrightarrow> gx_uuids X = U \<Longrightarrow> parse_backup_id X (uu_fmt U i) = Inr i"
  by (simp add: parse_backup_id_def uuid_text.parse_fmt)

lemma update_status_db:
  "snd (update_status X msg t) =
     (case parse_backup_id X (su_backup_id msg) of
        Inl e \<Rightarrow> t
      | Inr i \<Rightarrow> snd (pg_exec (gx_link X) (sql_set_status i (su_status msg) (gx_now X)) t))"
  by (auto simp: update_status_def grpc_exec_eq split: sum.splits)

lemma report_result_db:
  "fst (snd (report_result X res (t, m))) =
     (case parse_backup_id X (pr_backup_id res) of
        Inl e \<Rightarrow> t
      | Inr i \<Rightarrow>
          if pr_status res = ''completed''
          then snd (pg_exec (gx_link X) (sql_complete i (pr_size_bytes res) (gx_now X)) t)
          else snd (pg_exec (gx_link X) (sql_fail i (gx_now X)) t))"
  by (simp add: report_result_def grpc_exec_eq split: sum.splits)

lemma grpc_table_ok:
  "table_ok t \<Longrightarrow> table_ok (snd (update_status X msg t))"
  "table_ok t \<Longrightarrow> table_ok (fst (snd (report_result X res (t, m))))"
  by (simp_all add: update_status_db report_result_db set_status.exec_keeps_ok complete.exec_keeps_ok
      fail.exec_keeps_ok split: sum.splits)

lemma grpc_core:
  "b \<in> set (snd (update_status X msg t)) \<Longrightarrow> b_id b \<in> b_id ` set t \<Longrightarrow> row_core b \<in> row_core ` set t"
  "b \<in> set (fst (snd (report_result X res (t, m)))) \<Longrightarrow> b_id b \<in> b_id ` set t \<Longrightarrow> row_core b \<in> row_core ` set t"
  by (auto simp: update_status_db report_result_db split: sum.splits if_splits
      dest: set_status.exec_core_kept complete.exec_core_kept fail.exec_core_kept)

text \<open>With the database answering.\<close>

lemma update_status_up:
  assumes "table_ok t" and "gx_link X = Up" and "parse_backup_id X (su_backup_id msg) = Inr i"
    and "status_check (su_status msg)"
  shows "fst (update_status X msg t) =
      (if row_of i t = None then Inl (GrpcNotFound (''backup '' @ uu_fmt (gx_uuids X) i @ '' not found''))
       else Inr \<lparr> ak_success = True, ak_message = ''status updated'' \<rparr>)"
    and "row_of i (snd (update_status X msg t)) = map_option (set_status_row (su_status msg) (gx_now X)) (row_of i t)"
    and "j \<noteq> i \<Longrightarrow> row_of j (snd (update_status X msg t)) = row_of j t"
  using sql_set_status_eq [OF assms(1,4), of i "gx_now X"] set_status.exec_find_kept [of j i Up "su_status msg" "gx_now X" t] assms(2,3)
  by (simp_all add: update_status_def grpc_exec_eq)

lemma report_completed_up:
  assumes "table_ok t" and "gx_link X = Up" and "parse_backup_id X (pr_backup_id res) = Inr i"
    and "pr_status res = ''completed''"
  shows "fst (report_result X res (t, m)) = Inr \<lparr> ak_success = True, ak_message = ''result recorded'' \<rparr>"
    and "snd (snd (report_result X res (t, m))) = m\<lparr> m_success := m_success m + 1 \<rparr>"
    and "row_of i (fst (snd (report_result X res (t, m)))) =
      map_option (complete_row (pr_size_bytes res) (gx_now X)) (row_of i t)"
    and "j \<noteq> i \<Longrightarrow> row_of j (fst (snd (report_result X res (t, m)))) = row_of j t"
  using sql_complete_eq [OF assms(1), of i "pr_size_bytes res" "gx_now X"]
    complete.exec_find_kept [of j i Up "pr_size_bytes res" "gx_now X" t] assms(2-4)
  by (simp_all add: report_result_def grpc_exec_eq)

section \<open>Properties\<close>

definition demo_gx :: "micros \<Rightarrow> grpc_ctx" where
  "demo_gx now = \<lparr> gx_uuids = std_uuid, gx_pg_text = (\<lambda>_. ''error''), gx_link = Up, gx_now = now \<rparr>"

lemma demo_gx_sel [simp]: "gx_uuids (demo_gx n) = std_uuid" "gx_link (demo_gx n) = Up" "gx_now (demo_gx n) = n"
  by (simp_all add: demo_gx_def)

lemma demo_parse [simp]: "parse_backup_id (demo_gx n) (uu_fmt std_uuid i) = Inr i"
  by (simp add: parse_backup_id_def std.parse_fmt)

text \<open>The statement of \<^verbatim>\<open>update_status\<close> on a status the column's check accepts, and on another.\<close>

lemma sql_set_status_good:
  assumes "table_ok t" and "status_check st" and "text_ok st"
  shows "sql_set_status i st now t =
    (Inr (if row_of i t = None then 0 else 1), upd_where (\<lambda>x. b_id x = i) (set_status_row st now) t)"
  using update_rows_by_id(1) [OF assms(1) keeps_core_rows(2), of st now i] assms(2,3)
  by (simp add: sql_set_status_def split: option.splits)

lemma sql_set_status_refused:
  assumes "table_ok t" and "\<not> status_check st" and "text_ok st"
  shows "sql_set_status i st now t = (if row_of i t = None then Inr 0 else Inl PgCheckViolation, t)"
  using sql_set_status_bad [OF assms(1,2), of i now] assms(3) by (intro prod_eqI) simp_all

lemma update_status_missing:
  assumes "table_ok t" and "gx_link X = Up" and "text_ok (su_status msg)"
    and "parse_backup_id X (su_backup_id msg) = Inr i" and "row_of i t = None"
  shows "update_status X msg t = (Inl (GrpcNotFound (''backup '' @ uu_fmt (gx_uuids X) i @ '' not found'')), t)"
proof -
  have "sql_set_status i (su_status msg) (gx_now X) t = (Inr 0, t)"
    using sql_set_status_good [OF assms(1) _ assms(3)] sql_set_status_refused [OF assms(1) _ assms(3)] assms(5)
      upd_where_none [of t "\<lambda>x. b_id x = i"]
    by (cases "status_check (su_status msg)") (auto simp: find_None_iff)
  then show ?thesis using assms(2,4) by (simp add: update_status_def grpc_exec_eq)
qed

text \<open>
  C23: A status update. With the database answering, the call succeeds exactly when the id parses,
  the status is one of the four and the backup exists; then that row has the new status and time
  and nothing else changes. Otherwise nothing changes at all: a bad id is an invalid argument, an
  unknown backup with a valid status is not found, and a status the column's check rejects is an
  internal error when the backup exists.
\<close>

theorem update_status_effect:
  assumes ok: "table_ok t" and link: "gx_link X = Up" and clean: "text_ok (su_status msg)"
  shows "case parse_backup_id X (su_backup_id msg) of
      Inl e \<Rightarrow> update_status X msg t = (Inl e, t)
    | Inr i \<Rightarrow>
        (case row_of i t of
           None \<Rightarrow> update_status X msg t =
             (Inl (GrpcNotFound (''backup '' @ uu_fmt (gx_uuids X) i @ '' not found'')), t)
         | Some b \<Rightarrow>
             if status_check (su_status msg)
             then is_ok (fst (update_status X msg t)) \<and>
               snd (update_status X msg t) =
                 upd_where (\<lambda>x. b_id x = i) (\<lambda>x. x\<lparr> b_status := su_status msg, b_updated_at := gx_now X \<rparr>) t
             else update_status X msg t =
               (Inl (GrpcInternal (''database error: '' @ gx_pg_text X PgCheckViolation)), t))"
proof (cases "parse_backup_id X (su_backup_id msg)")
  case (Inr i)
  note good = sql_set_status_good [OF ok _ clean] and bad = sql_set_status_refused [OF ok _ clean]
  have none: "row_of i t = None \<Longrightarrow> upd_where (\<lambda>x. b_id x = i) f t = t" for f
    by (rule upd_where_none) (auto simp: find_None_iff)
  show ?thesis
  proof (cases "status_check (su_status msg)")
    case True
    with Inr good none show ?thesis
      by (simp add: update_status_def grpc_exec_eq link set_status_row_def [abs_def] split: option.splits)
  next
    case False
    with Inr bad show ?thesis
      by (simp add: update_status_def grpc_exec_eq link split: option.splits)
  qed
qed (simp add: update_status_def)

lemma update_status_effect_witness:
  "\<not> is_ok (fst (update_status (demo_gx 9) \<lparr> su_backup_id = uu_fmt std_uuid 4, su_status = ''running'' \<rparr>
     [new_row 1 5 1 ''/d'' False]))"
  using update_status_effect [of "[new_row 1 5 1 ''/d'' False]" "demo_gx 9"
      "\<lparr> su_backup_id = uu_fmt std_uuid 4, su_status = ''running'' \<rparr>"]
  by (simp add: table_ok_def new_row_def status_text_ok)

text \<open>
  C40: A result for a backup that does not exist is acknowledged. The number of rows the update
  affected is not looked at, so the worker is told that the result was recorded, and a job is
  counted as processed, though the table has not changed; \<^verbatim>\<open>update_status\<close> answers not found.
\<close>

theorem report_for_unknown_backup_acknowledged:
  assumes ok: "table_ok t" and up: "gx_link X = Up"
    and id: "parse_backup_id X (pr_backup_id res) = Inr i" and none: "row_of i t = None"
  shows "fst (report_result X res (t, m)) = Inr \<lparr> ak_success = True, ak_message = ''result recorded'' \<rparr> \<and>
    fst (snd (report_result X res (t, m))) = t \<and> snd (snd (report_result X res (t, m))) \<noteq> m"
proof -
  have "upd_where (\<lambda>x. b_id x = i) f t = t" for f
    using none by (intro upd_where_none) (auto simp: find_None_iff)
  then have "sql_complete i n now t = (Inr 0, t)" "sql_fail i now t = (Inr 0, t)" for n now
    using update_rows_by_id(1) [OF ok keeps_core_rows(3), of n now i]
      update_rows_by_id(1) [OF ok keeps_core_rows(2), of "''failed''" now i] none
    by (simp_all add: sql_complete_def sql_fail_def)
  then show ?thesis
    by (cases m) (simp add: report_result_def grpc_exec_eq up id)
qed

lemma report_for_unknown_backup_acknowledged_witness:
  "fst (snd (report_result (demo_gx 9) \<lparr> pr_backup_id = uu_fmt std_uuid 4, pr_status = ''completed'',
       pr_size_bytes = 7, pr_entropy = (0 :: nat), pr_suspicious = False, pr_error_message = [] \<rparr>
     ([new_row 1 5 1 ''/d'' False], \<lparr> m_success = 0, m_failure = 0 \<rparr>))) = [new_row 1 5 1 ''/d'' False]"
  using report_for_unknown_backup_acknowledged [of "[new_row 1 5 1 ''/d'' False]" "demo_gx 9"
      "\<lparr> pr_backup_id = uu_fmt std_uuid 4, pr_status = ''completed'',
         pr_size_bytes = 7, pr_entropy = (0 :: nat), pr_suspicious = False, pr_error_message = [] \<rparr>" 4
      "\<lparr> m_success = 0, m_failure = 0 \<rparr>"]
  by (simp add: table_ok_def new_row_def)

end
