(* ===== verification/Apollo.thy ===== *)
theory Apollo
  imports Config
begin

text \<open>
  \<^verbatim>\<open>crates/backup-service/src/apollo/merge.rs\<close> and \<^verbatim>\<open>apollo/fetch.rs\<close>: the partial update a
  remote endpoint serves, its merge into the configuration, one fetch and the updater's loop.
  The HTTP client and the JSON decoder are parameters; a loop is run over the list of what the
  client does at its successive ticks.
\<close>

section \<open>Merging an update\<close>

record rate_limit_update =
  ru_max_requests :: "u64 option"
  ru_window_secs :: "u64 option"

record remote_update =
  u_rate_limit :: "rate_limit_update option"
  u_cache_ttl_secs :: "u64 option"
  u_cached_list_limit :: "i64 option"
  u_cached_list_offset :: "i64 option"

definition no_remote_update :: remote_update where
  "no_remote_update =
     \<lparr> u_rate_limit = None, u_cache_ttl_secs = None,
       u_cached_list_limit = None, u_cached_list_offset = None \<rparr>"

definition apply_rate_limit :: "app_config \<Rightarrow> rate_limit_update \<Rightarrow> app_config" where
  "apply_rate_limit c rl =
     (let c = (case ru_max_requests rl of
                 Some v \<Rightarrow> c\<lparr>rate_limit := (rate_limit c)\<lparr>max_requests := v\<rparr>\<rparr> | None \<Rightarrow> c)
      in (case ru_window_secs rl of
            Some v \<Rightarrow> c\<lparr>rate_limit := (rate_limit c)\<lparr>window_secs := v\<rparr>\<rparr> | None \<Rightarrow> c))"

definition apply_update :: "app_config \<Rightarrow> remote_update \<Rightarrow> app_config" where
  "apply_update config update =
     (let c = (case u_rate_limit update of
                 Some rl \<Rightarrow> apply_rate_limit config rl | None \<Rightarrow> config);
          c = (case u_cache_ttl_secs update of Some v \<Rightarrow> c\<lparr>cache_ttl_secs := v\<rparr> | None \<Rightarrow> c);
          c = (case u_cached_list_limit update of Some v \<Rightarrow> c\<lparr>cached_list_limit := v\<rparr> | None \<Rightarrow> c)
      in (case u_cached_list_offset update of Some v \<Rightarrow> c\<lparr>cached_list_offset := v\<rparr> | None \<Rightarrow> c))"

text \<open>One update that does what two in a row do.\<close>

definition then_rate_limit :: "rate_limit_update \<Rightarrow> rate_limit_update \<Rightarrow> rate_limit_update" where
  "then_rate_limit a b =
     \<lparr> ru_max_requests = later (ru_max_requests a) (ru_max_requests b),
       ru_window_secs = later (ru_window_secs a) (ru_window_secs b) \<rparr>"

definition then_remote :: "remote_update \<Rightarrow> remote_update \<Rightarrow> remote_update" where
  "then_remote a b =
     \<lparr> u_rate_limit =
         (case (u_rate_limit a, u_rate_limit b) of
            (Some x, Some y) \<Rightarrow> Some (then_rate_limit x y)
          | (x, None) \<Rightarrow> x
          | (None, y) \<Rightarrow> y),
       u_cache_ttl_secs = later (u_cache_ttl_secs a) (u_cache_ttl_secs b),
       u_cached_list_limit = later (u_cached_list_limit a) (u_cached_list_limit b),
       u_cached_list_offset = later (u_cached_list_offset a) (u_cached_list_offset b) \<rparr>"

lemma apply_rate_limit_eq:
  "apply_rate_limit c rl =
     c\<lparr>rate_limit := \<lparr> max_requests = or_keep (ru_max_requests rl) (max_requests (rate_limit c)),
                       window_secs = or_keep (ru_window_secs rl) (window_secs (rate_limit c)) \<rparr>\<rparr>"
  by (simp add: apply_rate_limit_def split: option.splits)

lemma apply_update_fields [simp]:
  "max_requests (rate_limit (apply_update c u)) =
     or_keep (Option.bind (u_rate_limit u) ru_max_requests) (max_requests (rate_limit c))"
  "window_secs (rate_limit (apply_update c u)) =
     or_keep (Option.bind (u_rate_limit u) ru_window_secs) (window_secs (rate_limit c))"
  "cache_ttl_secs (apply_update c u) = or_keep (u_cache_ttl_secs u) (cache_ttl_secs c)"
  "cached_list_limit (apply_update c u) = or_keep (u_cached_list_limit u) (cached_list_limit c)"
  "cached_list_offset (apply_update c u) = or_keep (u_cached_list_offset u) (cached_list_offset c)"
  by (simp_all add: apply_update_def apply_rate_limit_eq Let_def split: option.splits)

text \<open>Everything the remote must never overwrite.\<close>

definition protected_part :: "app_config \<Rightarrow>
    (string \<times> string \<times> string \<times> string) \<times> (socket_addr \<times> socket_addr) \<times> (string option \<times> u64 \<times> u64)" where
  "protected_part c =
     ((database_url c, redis_url c, amqp_url c, jwt_secret c),
      (listen_addr c, grpc_addr c),
      (apollo_config_url c, apollo_poll_interval_secs c, apollo_timeout_secs c))"

lemma apply_update_protected [frame_simps]: "protected_part (apply_update c u) = protected_part c"
  by (simp add: apply_update_def apply_rate_limit_eq protected_part_def Let_def split: option.splits)

lemma app_config_eqI:
  assumes "protected_part a = protected_part b"
    and "max_requests (rate_limit a) = max_requests (rate_limit b)"
    and "window_secs (rate_limit a) = window_secs (rate_limit b)"
    and "cache_ttl_secs a = cache_ttl_secs b"
    and "cached_list_limit a = cached_list_limit b"
    and "cached_list_offset a = cached_list_offset b"
  shows "a = (b :: app_config)"
proof -
  have "rate_limit a = rate_limit b"
    using assms(2,3) by (cases "rate_limit a", cases "rate_limit b") simp
  with assms show ?thesis
    by (cases a, cases b) (simp add: protected_part_def)
qed

lemma then_remote_rate_limit:
  "Option.bind (u_rate_limit (then_remote u v)) ru_max_requests =
     later (Option.bind (u_rate_limit u) ru_max_requests) (Option.bind (u_rate_limit v) ru_max_requests)"
  "Option.bind (u_rate_limit (then_remote u v)) ru_window_secs =
     later (Option.bind (u_rate_limit u) ru_window_secs) (Option.bind (u_rate_limit v) ru_window_secs)"
  by (cases "u_rate_limit u"; cases "u_rate_limit v"; simp add: then_remote_def then_rate_limit_def)+

lemma then_remote_fields [simp]:
  "u_cache_ttl_secs (then_remote a b) = later (u_cache_ttl_secs a) (u_cache_ttl_secs b)"
  "u_cached_list_limit (then_remote a b) = later (u_cached_list_limit a) (u_cached_list_limit b)"
  "u_cached_list_offset (then_remote a b) = later (u_cached_list_offset a) (u_cached_list_offset b)"
  by (simp_all add: then_remote_def)

interpretation remote: partial_update apply_update then_remote no_remote_update
proof unfold_locales
  fix c u v
  show "apply_update c no_remote_update = c"
    by (simp add: apply_update_def no_remote_update_def)
  show "apply_update (apply_update c u) v = apply_update c (then_remote u v)"
    by (rule app_config_eqI) (simp_all add: frame_simps or_keep_later then_remote_rate_limit)
  show "then_remote u u = u"
    by (cases u; cases "u_rate_limit u") (simp_all add: then_remote_def then_rate_limit_def)
qed

section \<open>Fetching\<close>

record 'j http_response =
  hr_code :: nat
  hr_body :: 'j

type_synonym 'j http_client = "string \<Rightarrow> string + 'j http_response"

text \<open>\<^verbatim>\<open>Response::error_for_status_ref\<close>: client and server error codes are errors.\<close>

definition error_for_status :: "'j http_response \<Rightarrow> string + unit" where
  "error_for_status r = (if 400 \<le> hr_code r \<and> hr_code r < 600 then Inl ''HTTP status error'' else Inr ())"

definition fetch_config :: "('j \<Rightarrow> string + remote_update) \<Rightarrow> 'j http_client \<Rightarrow> string \<Rightarrow> string + remote_update" where
  "fetch_config decode client url =
     (case client url of
        Inl e \<Rightarrow> Inl e
      | Inr resp \<Rightarrow>
          (case error_for_status resp of
             Inl e \<Rightarrow> Inl e
           | Inr _ \<Rightarrow> decode (hr_body resp)))"

definition run_one_update :: "('j \<Rightarrow> string + remote_update) \<Rightarrow> 'j http_client \<Rightarrow> string \<Rightarrow> app_config \<Rightarrow> bool \<times> app_config" where
  "run_one_update decode client url cfg =
     (case fetch_config decode client url of
        Inr update \<Rightarrow> (True, apply_update cfg update)
      | Inl e \<Rightarrow> (False, cfg))"

section \<open>The updater's loop\<close>

record updater_config =
  up_url :: string
  up_interval :: nanos
  up_timeout :: nanos

text \<open>
  One pass of the loop's body after the tick. \<^verbatim>\<open>tokio::time::interval\<close> panics on a zero period,
  which ends the spawned task before its first tick: the result is then \<^const>\<open>None\<close>.
\<close>

definition updater_tick :: "('j \<Rightarrow> string + remote_update) \<Rightarrow> string \<Rightarrow> app_config \<Rightarrow> 'j http_client \<Rightarrow> app_config" where
  "updater_tick decode url cfg client =
     (case fetch_config decode client url of
        Inr update \<Rightarrow> apply_update cfg update
      | Inl e \<Rightarrow> cfg)"

definition run_updater_loop :: "('j \<Rightarrow> string + remote_update) \<Rightarrow> updater_config \<Rightarrow> 'j http_client list \<Rightarrow> app_config \<Rightarrow> app_config option" where
  "run_updater_loop decode up ticks cfg =
     (if up_interval up = 0 then None
      else Some (foldl (updater_tick decode (up_url up)) cfg ticks))"

text \<open>The updates the endpoint really served, in order.\<close>

fun served_updates :: "('j \<Rightarrow> string + remote_update) \<Rightarrow> string \<Rightarrow> 'j http_client list \<Rightarrow> remote_update list" where
  "served_updates decode url [] = []"
| "served_updates decode url (c # cs) =
     (case fetch_config decode c url of
        Inr u \<Rightarrow> u # served_updates decode url cs
      | Inl e \<Rightarrow> served_updates decode url cs)"

lemma fetch_error_status:
  "client url = Inr resp \<Longrightarrow> 400 \<le> hr_code resp \<Longrightarrow> hr_code resp < 600 \<Longrightarrow>
   \<exists>e. fetch_config decode client url = Inl e"
  by (simp add: fetch_config_def error_for_status_def)

lemma updater_ticks: "foldl (updater_tick decode url) cfg ticks = foldl apply_update cfg (served_updates decode url ticks)"
  by (induction ticks arbitrary: cfg) (simp_all add: updater_tick_def split: sum.splits)

lemma updater_loop_merged:
  "0 < up_interval up \<Longrightarrow>
   run_updater_loop decode up ticks cfg =
     Some (apply_update cfg (foldl then_remote no_remote_update (served_updates decode (up_url up) ticks)))"
  by (simp add: run_updater_loop_def updater_ticks remote.foldl_act)

lemma updater_loop_protected:
  "run_updater_loop decode up ticks cfg = Some cfg' \<Longrightarrow> protected_part cfg' = protected_part cfg"
  by (auto simp: run_updater_loop_def updater_ticks apply_update_protected
      intro: remote.foldl_frame split: if_splits)

section \<open>Starting the updater\<close>

text \<open>What \<^verbatim>\<open>main\<close> spawns: a task, if there is a non-empty URL.\<close>

definition updater_config_of :: "app_config \<Rightarrow> updater_config option" where
  "updater_config_of cfg =
     (case apollo_config_url cfg of
        None \<Rightarrow> None
      | Some url \<Rightarrow>
          if url = [] then None
          else Some \<lparr> up_url = url,
                      up_interval = unat (apollo_poll_interval_secs cfg) * 10 ^ 9,
                      up_timeout = unat (apollo_timeout_secs cfg) * 10 ^ 9 \<rparr>)"

section \<open>Properties\<close>

text \<open>
  C26: Live reload. After any number of ticks, with whatever failures of the endpoint in between,
  each of the five reloadable settings holds the last value the endpoint served for it (or the
  one it had, if none was), and nothing else of the configuration has changed: no URL, secret,
  address or setting of the updater itself.
\<close>

theorem updater_applies_last_values:
  assumes "0 < up_interval up" and "us = served_updates decode (up_url up) ticks"
  shows "\<exists>cfg'. run_updater_loop decode up ticks cfg = Some cfg' \<and>
    protected_part cfg' = protected_part cfg \<and>
    max_requests (rate_limit cfg') =
      or_keep (last_given (map (\<lambda>u. Option.bind (u_rate_limit u) ru_max_requests) us)) (max_requests (rate_limit cfg)) \<and>
    window_secs (rate_limit cfg') =
      or_keep (last_given (map (\<lambda>u. Option.bind (u_rate_limit u) ru_window_secs) us)) (window_secs (rate_limit cfg)) \<and>
    cache_ttl_secs cfg' = or_keep (last_given (map u_cache_ttl_secs us)) (cache_ttl_secs cfg) \<and>
    cached_list_limit cfg' = or_keep (last_given (map u_cached_list_limit us)) (cached_list_limit cfg) \<and>
    cached_list_offset cfg' = or_keep (last_given (map u_cached_list_offset us)) (cached_list_offset cfg)"
proof (intro exI conjI)
  show "run_updater_loop decode up ticks cfg = Some (foldl apply_update cfg us)"
    using assms by (simp add: run_updater_loop_def updater_ticks)
  show "protected_part (foldl apply_update cfg us) = protected_part cfg"
    by (rule remote.foldl_frame) (rule apply_update_protected)
qed (rule remote.foldl_field, rule apply_update_fields)+

lemma updater_applies_last_values_witness:
  "\<exists>cfg'. run_updater_loop (\<lambda>ttl. Inr (no_remote_update\<lparr> u_cache_ttl_secs := Some ttl \<rparr>))
       \<lparr> up_url = ''u'', up_interval = 1, up_timeout = 1 \<rparr>
       [\<lambda>_. Inr \<lparr> hr_code = 200, hr_body = 7 \<rparr>, \<lambda>_. Inr \<lparr> hr_code = 503, hr_body = 8 \<rparr>] dev_config = Some cfg' \<and>
     cache_ttl_secs cfg' = 7 \<and> max_requests (rate_limit cfg') = 100"
  using updater_applies_last_values [of "\<lparr> up_url = ''u'', up_interval = 1, up_timeout = 1 \<rparr>"
      "[no_remote_update\<lparr> u_cache_ttl_secs := Some 7 \<rparr>]"
      "\<lambda>ttl. Inr (no_remote_update\<lparr> u_cache_ttl_secs := Some ttl \<rparr>)"
      "[\<lambda>_. Inr \<lparr> hr_code = 200, hr_body = 7 \<rparr>, \<lambda>_. Inr \<lparr> hr_code = 503, hr_body = 8 \<rparr>]" dev_config]
  by (auto simp: fetch_config_def error_for_status_def last_given_def later_def no_remote_update_def dev_config_def
      default_rate_limit_def)

text \<open>
  The poll interval is not checked. With \<^verbatim>\<open>APOLLO_POLL_INTERVAL_SECS=0\<close> and a URL in the
  environment, start-up succeeds and the spawned updater panics before its first fetch, although
  its documentation says that it does not panic: no remote setting is ever applied.
\<close>

theorem zero_interval_stops_updater:
  assumes "env ''APOLLO_POLL_INTERVAL_SECS'' = Some ''0''"
    and "env ''APOLLO_CONFIG_URL'' = Some url" and "url \<noteq> []"
    and "from_env parse_addr env = Inr cfg"
  shows "\<exists>up. updater_config_of cfg = Some up \<and> up_url up = url \<and>
    run_updater_loop decode up ticks cfg = None"
proof -
  have "parse_u64 ''0'' = Some 0"
    by (simp add: parse_u64_def parse_nat_def strip_prefix_def starts_with_def digit_val_def)
  with assms have "apollo_poll_interval_secs cfg = 0" "apollo_config_url cfg = Some url"
    using from_env_apollo [OF assms(4)] by (simp_all add: env_u64_def)
  with assms(3) show ?thesis by (simp add: updater_config_of_def run_updater_loop_def)
qed

lemma zero_interval_stops_updater_witness:
  "\<exists>cfg up. from_env demo_parse_addr [''APOLLO_POLL_INTERVAL_SECS'' \<mapsto> ''0'', ''APOLLO_CONFIG_URL'' \<mapsto> ''u''] = Inr cfg \<and>
     updater_config_of cfg = Some up \<and> run_updater_loop (\<lambda>_. Inr no_remote_update) up [] cfg = None"
proof -
  let ?env = "[''APOLLO_POLL_INTERVAL_SECS'' \<mapsto> ''0'', ''APOLLO_CONFIG_URL'' \<mapsto> ''u'']"
  obtain cfg where c: "from_env demo_parse_addr ?env = Inr cfg"
    by (simp add: from_env_def demo_parse_addr_def env_or_def)
  from zero_interval_stops_updater [of ?env "''u''", OF _ _ _ c] c show ?thesis by fastforce
qed

end
