(* ===== verification/System.thy ===== *)
theory System
  imports Router Freshness Grpc_Service Apollo
begin

text \<open>
  The running service: HTTP requests, gRPC calls of the worker, reloads of the configuration and
  the passage of time, interleaved in any order. A step is one whole request or call; the shared
  state is that of all handlers. The invariants hold in every reachable state, whatever the links,
  clocks, tokens and served updates are.
\<close>

section \<open>Steps\<close>

text \<open>\<open>env\<close> collects what is fixed while the service runs.\<close>

record ('r, 'j, 'q, 'f, 'b) service =
  sv_libs :: "('r, 'j, 'q, 'f) libs"
  sv_extract :: "'b extractors"
  sv_contents :: "'r \<Rightarrow> string \<Rightarrow> 'j option"
  sv_settle :: "'r \<Rightarrow> 'r"

type_synonym ('r, 'q) sys = "('r, 'q) app_state \<times> job_metrics"

inductive sys_step :: "('r, 'j, 'q, 'f, 'b) service \<Rightarrow> ('r, 'q) sys \<Rightarrow> ('r, 'q) sys \<Rightarrow> bool" for S where
  Http: "handle_request (sv_libs S) (sv_extract S) ck cx rq a = (response, a') \<Longrightarrow> sys_step S (a, m) (a', m)"
| Status: "update_status X msg (a_db a) = (r, t) \<Longrightarrow> sys_step S (a, m) (a\<lparr> a_db := t \<rparr>, m)"
| Result: "report_result X (res :: 'f processing_result) (a_db a, m) = (r, t, m') \<Longrightarrow>
    sys_step S (a, m) (a\<lparr> a_db := t \<rparr>, m')"
| Reload: "sys_step S (a, m) (with_config_mut (\<lambda>cfg. updater_tick (decode :: 'j \<Rightarrow> string + remote_update) url cfg client) a, m)"
| Settle: "sys_step S (a, m) (settle_app (sv_settle S) a, m)"

inductive reachable :: "('r, 'j, 'q, 'f, 'b) service \<Rightarrow> ('r, 'q) sys \<Rightarrow> ('r, 'q) sys \<Rightarrow> bool" for S s0 where
  Start: "reachable S s0 s0"
| Step: "reachable S s0 s \<Longrightarrow> sys_step S s s' \<Longrightarrow> reachable S s0 s'"

inductive_cases sys_stepE: "sys_step S (a, m) (a', m')"

section \<open>Cached lists hold the tenant's own rows\<close>

definition lists_own :: "('r, 'j, 'q, 'f) libs \<Rightarrow> ('r \<Rightarrow> string \<Rightarrow> 'j option) \<Rightarrow> 'r option \<Rightarrow> bool" where
  "lists_own L contents c =
     (\<forall>tn xs n. may_list (lb_cache L) contents c tn (xs, n) \<longrightarrow> (\<forall>b \<in> set xs. b_tenant_id b = tn))"

lemma lists_own_mono:
  "lists_own L contents c \<Longrightarrow>
   (\<And>tn p. may_list (lb_cache L) contents c' tn p \<Longrightarrow> may_list (lb_cache L) contents c tn p) \<Longrightarrow>
   lists_own L contents c'"
  unfolding lists_own_def by blast

context redis_cache begin

lemmas may_after_set_row = set_backup_may
lemmas may_after_set_list = set_tenant_may
lemmas may_after_drop = invalidate_may
lemmas got_list_may = get_tenant_may
lemmas got_row_may = get_backup_may

end

lemma page_own:
  assumes "planner (lb_order L)" and "b \<in> set (page l off (lb_order L l off (filter (listed tn st) t)))"
  shows "b \<in> set t \<and> b_tenant_id b = tn"
  using planner.page_rows [OF assms(1)] assms(2) by (fastforce simp: listed_def)

lemma run_handler_lists_own:
  assumes R: "redis_cache (lb_cache L) contents settle" and P: "planner (lb_order L)"
    and own: "lists_own L contents (a_cache a)"
  shows "lists_own L contents (a_cache (snd (run_handler L cx c call a)))"
proof (cases call)
  case (CreateBackup req)
  with own show ?thesis
    by (auto simp: create_backup_def db_exec_eq intro: lists_own_mono redis_cache.may_after_drop [OF R] split: sum.splits)
next
  case (UpdateBackup i req)
  with own show ?thesis
    by (auto simp: update_backup_def db_exec_eq Let_def intro: lists_own_mono redis_cache.may_after_drop [OF R]
        split: sum.splits option.splits)
next
  case (DeleteBackup i)
  with own show ?thesis
    by (auto simp: delete_backup_def db_exec_eq Let_def intro: lists_own_mono redis_cache.may_after_drop [OF R]
        split: sum.splits)
next
  case (GetBackup i)
  obtain r where f: "fetch_owned L cx c i a = (r, a)"
    using fetch_owned_state by (metis prod.collapse)
  with GetBackup own show ?thesis
    by (auto simp: get_backup_def Let_def intro: lists_own_mono redis_cache.may_after_set_row [OF R]
        split: sum.splits option.splits)
next
  case (ListBackups params)
  obtain r where f: "fetch_page L cx c (lp_status params) (list_limit params) (list_offset params) a = (r, a)"
    using fetch_page_state by (metis prod.collapse)
  have "lists_own L contents (cache_set_tenant_backups (lb_cache L) cfg (a_cache a) (cl_tenant_id c) items tot)"
    if "r = Inr (items, tot)" for items tot cfg
  proof -
    have "items = page (list_limit params) (list_offset params)
        (lb_order L (list_limit params) (list_offset params) (filter (listed (cl_tenant_id c) (lp_status params)) (a_db a)))"
      using fetch_page_Inr [of L cx c "lp_status params" "list_limit params" "list_offset params" a items tot]
        f that by simp
    then have "\<forall>b \<in> set items. b_tenant_id b = cl_tenant_id c"
      using page_own [OF P] by blast
    with own show ?thesis
      unfolding lists_own_def by (auto dest!: redis_cache.may_after_set_list(1) [OF R])
  qed
  with ListBackups own show ?thesis
    by (auto simp: list_backups_def f Let_def split: sum.splits option.splits)
next
  case (AnalyzeBackup i)
  obtain r where "fetch_owned L cx c i a = (r, a)"
    using fetch_owned_state by (metis prod.collapse)
  with AnalyzeBackup own show ?thesis
    by (auto simp: analyze_backup_def Let_def split: sum.splits option.splits)
next
  case (EnqueueBackup i)
  obtain r where "fetch_owned L cx c i a = (r, a)"
    using fetch_owned_state by (metis prod.collapse)
  with EnqueueBackup own show ?thesis
    by (auto simp: enqueue_backup_def Let_def split: sum.splits option.splits amqp_error.splits)
qed

text \<open>So every row a handler shows is the caller's.\<close>

lemma run_handler_shows_own:
  assumes R: "redis_cache (lb_cache L) contents settle" and P: "planner (lb_order L)"
    and own: "lists_own L contents (a_cache a)"
    and run: "fst (run_handler L cx c call a) = Some (Inr response)"
    and r: "r \<in> set (body_rows (rp_body response))"
  shows "r_tenant_id r = cl_tenant_id c"
proof (cases call)
  case (CreateBackup req)
  with run r show ?thesis
    by (auto simp: create_backup_def db_exec_eq new_row_def dest!: pg_exec_Inr sql_insert_Inr split: sum.splits)
next
  case (UpdateBackup i req)
  have "b_tenant_id b = cl_tenant_id c" if "fst (sql_update i (cl_tenant_id c) st sz now t) = Inr (Some b)" for b st sz now t
    using that keeps_coreD [OF keeps_core_rows(1)]
    by (auto simp: sql_update_def update_rows_def filter_eq_Cons_iff owned_def split: if_splits list.splits)
  with UpdateBackup run r show ?thesis
    by (auto simp: update_backup_def db_exec_eq Let_def dest!: pg_exec_Inr split: sum.splits option.splits)
next
  case (DeleteBackup i)
  with run r show ?thesis
    by (auto simp: delete_backup_def db_exec_eq Let_def split: sum.splits if_splits)
next
  case (GetBackup i)
  obtain f where f: "fetch_owned L cx c i a = (f, a)"
    using fetch_owned_state by (metis prod.collapse)
  have "b_tenant_id b = cl_tenant_id c" if "f = Inr b" for b
    using f that fetch_owned_Inr [of L cx c i a b] find_ownedD by (auto simp: owned_row_def)
  with GetBackup run r f show ?thesis
    by (auto simp: get_backup_def Let_def split: sum.splits option.splits if_splits)
next
  case (ListBackups params)
  obtain f where f: "fetch_page L cx c (lp_status params) (list_limit params) (list_offset params) a = (f, a)"
    using fetch_page_state by (metis prod.collapse)
  have fetched: "\<forall>b \<in> set items. b_tenant_id b = cl_tenant_id c" if "f = Inr (items, tot)" for items tot
  proof -
    have "items = page (list_limit params) (list_offset params)
        (lb_order L (list_limit params) (list_offset params) (filter (listed (cl_tenant_id c) (lp_status params)) (a_db a)))"
      using fetch_page_Inr [of L cx c "lp_status params" "list_limit params" "list_offset params" a items tot]
        f that by simp
    then show ?thesis using page_own [OF P] by blast
  qed
  have cached: "\<forall>b \<in> set items. b_tenant_id b = cl_tenant_id c"
    if "cache_get_tenant_backups (lb_cache L) (a_cache a) (cl_tenant_id c) = Some (items, tot)" for items tot
    using redis_cache.got_list_may [OF R that] own by (auto simp: lists_own_def)
  have "\<exists>items tot. response = list_reply items tot (list_offset params) (list_limit params) \<and>
      (\<forall>b \<in> set items. b_tenant_id b = cl_tenant_id c)"
  proof (cases "if use_list_cache (a_config a) params
      then cache_get_tenant_backups (lb_cache L) (a_cache a) (cl_tenant_id c) else None")
    case None
    with ListBackups run fetched show ?thesis
      by (cases f) (auto simp: list_backups_def f Let_def, blast)
  next
    case (Some p)
    then have "cache_get_tenant_backups (lb_cache L) (a_cache a) (cl_tenant_id c) = Some p"
      by (simp split: if_splits)
    with cached have "\<forall>b \<in> set (fst p). b_tenant_id b = cl_tenant_id c" by (cases p) simp
    with Some ListBackups run show ?thesis
      by (cases p) (auto simp: list_backups_def Let_def)
  qed
  with r show ?thesis by (auto simp: list_reply_def)
next
  case (AnalyzeBackup i)
  obtain f where f: "fetch_owned L cx c i a = (f, a)"
    using fetch_owned_state by (metis prod.collapse)
  have "b_tenant_id b = cl_tenant_id c" if "f = Inr b" for b
    using f that fetch_owned_Inr [of L cx c i a b] find_ownedD by (auto simp: owned_row_def)
  with AnalyzeBackup run r f show ?thesis
    by (auto simp: analyze_backup_def Let_def split: sum.splits option.splits)
next
  case (EnqueueBackup i)
  obtain f where "fetch_owned L cx c i a = (f, a)"
    using fetch_owned_state by (metis prod.collapse)
  with EnqueueBackup run r show ?thesis
    by (auto simp: enqueue_backup_def Let_def split: sum.splits option.splits amqp_error.splits)
qed

section \<open>The invariant\<close>

definition sys_ok :: "('r, 'j, 'q, 'f, 'b) service \<Rightarrow> ('r, 'q) sys \<Rightarrow> bool" where
  "sys_ok S s =
     (table_ok (a_db (fst s)) \<and> lists_own (sv_libs S) (sv_contents S) (a_cache (fst s)))"

definition service_ok :: "('r, 'j, 'q, 'f, 'b, 'z) service_scheme \<Rightarrow> bool" where
  "service_ok S =
     (redis_cache (lb_cache (sv_libs S)) (sv_contents S) (sv_settle S) \<and>
      jwt_library (lb_auth (sv_libs S)) \<and> planner (lb_order (sv_libs S)))"

lemma sys_step_ok:
  assumes S: "service_ok S" and step: "sys_step S s s'" and ok: "sys_ok S s"
  shows "sys_ok S s' \<and> protected_part (a_config (fst s')) = protected_part (a_config (fst s))"
  using step
proof cases
  case (Http ck cx rq a response a' m)
  have J: "jwt_library (lb_auth (sv_libs S))" using S by (simp add: service_ok_def)
  from handle_request_effect [OF J Http(3)] ok Http S show ?thesis
    by (auto simp: sys_ok_def service_ok_def intro: run_handler_table_ok run_handler_lists_own)
next
  case (Status X msg a r t m)
  with ok grpc_table_ok(1) [of "a_db a" X msg] show ?thesis by (simp add: sys_ok_def)
next
  case (Result X res a m r t m')
  with ok grpc_table_ok(2) [of "a_db a" X res m] show ?thesis by (simp add: sys_ok_def)
next
  case (Reload a m decode url client)
  with ok show ?thesis
    by (auto simp: sys_ok_def with_config_mut_def updater_tick_def apply_update_protected split: sum.splits)
next
  case (Settle a m)
  have R: "redis_cache (lb_cache (sv_libs S)) (sv_contents S) (sv_settle S)" using S by (simp add: service_ok_def)
  have c: "sv_contents S (sv_settle S r) k = Some j \<Longrightarrow> sv_contents S r k = Some j" for r k j
    using redis_cache.settle_contents [OF R, of r k] by auto
  have "lists_own (sv_libs S) (sv_contents S) (map_option (sv_settle S) (a_cache a))"
    using ok Settle by (auto simp: sys_ok_def may_list_def dest!: c elim!: lists_own_mono)
  with ok Settle show ?thesis by (simp add: sys_ok_def settle_app_def)
qed

lemma reachable_ok:
  assumes "service_ok S" and "sys_ok S s0" and "reachable S s0 s"
  shows "sys_ok S s \<and> protected_part (a_config (fst s)) = protected_part (a_config (fst s0))"
  using assms(3)
proof (induction rule: reachable.induct)
  case Start
  with assms(2) show ?case by simp
next
  case (Step s s')
  with sys_step_ok [OF assms(1) Step.hyps(2)] show ?case by simp
qed

end
