(* ===== verification/Concurrent.thy ===== *)
theory Concurrent
  imports Layers System
begin

text \<open>
  The service under the scheduler. Any number of requests are in flight, each as the task it is at;
  an event lets one of them perform its next action, drops one (its client went away or the timeout
  layer gave up on it), or is a call of the worker, a reload or an expiry. Nothing is assumed about
  the order of events. What holds then holds for every interleaving inside the handlers, also where
  the theory \<^verbatim>\<open>System\<close> takes a request as one step.
\<close>

section \<open>Steps\<close>

text \<open>The service with the layers around its routes and what its metrics route renders.\<close>

record ('r, 'j, 'q, 'f, 'b) stack = "('r, 'j, 'q, 'f, 'b) service" +
  st_layers :: "(('r, 'q) app_state, 'f, 'b) layers"
  st_render :: string

record ('r, 'q, 'f, 'b) flight =
  fl_clocks :: clocks
  fl_ctx :: req_ctx
  fl_request :: "'b http_request"
  fl_task :: "(('r, 'q) app_state, 'f http_reply option) task"

text \<open>\<open>cs_seen\<close> is a history variable, all rows the table has held; no step reads it.\<close>

record ('r, 'q, 'f, 'b) conc =
  cs_app :: "('r, 'q) app_state"
  cs_metrics :: job_metrics
  cs_flights :: "('r, 'q, 'f, 'b) flight list"
  cs_seen :: "backup set"

datatype ('f, 'b) event =
    Arrive clocks req_ctx "'b http_request"
  | Poll nat
  | Dropped nat
  | StatusCall grpc_ctx status_update
  | ResultCall grpc_ctx "'f processing_result"
  | Reloaded remote_update
  | Settled

definition with_app :: "('r, 'q) app_state \<Rightarrow> ('r, 'q, 'f, 'b) conc \<Rightarrow> ('r, 'q, 'f, 'b) conc" where
  "with_app a s = s\<lparr> cs_app := a, cs_seen := cs_seen s \<union> set (a_db a) \<rparr>"

text \<open>A dropped task never performs another action and has no response.\<close>

definition drop_task :: "('s, 'a option) task \<Rightarrow> ('s, 'a option) task" where
  "drop_task t = (case t of Done r \<Rightarrow> Done r | Act f \<Rightarrow> Done None)"

fun conc_step ::
    "('r, 'j, 'q, 'f, 'b) stack \<Rightarrow> ('f, 'b) event \<Rightarrow> ('r, 'q, 'f, 'b) conc \<Rightarrow> ('r, 'q, 'f, 'b) conc" where
  "conc_step S (Arrive ck cx rq) s =
     s\<lparr> cs_flights := cs_flights s @
         [\<lparr> fl_clocks = ck, fl_ctx = cx, fl_request = rq, fl_task = served_task (sv_libs S) (sv_extract S) (st_layers S) (st_render S) ck cx rq \<rparr>] \<rparr>"
| "conc_step S (Poll i) s =
     (if i < length (cs_flights s)
      then let fl = cs_flights s ! i; (t, a) = poll (fl_task fl) (cs_app s)
           in with_app a (s\<lparr> cs_flights := (cs_flights s)[i := fl\<lparr> fl_task := t \<rparr>] \<rparr>)
      else s)"
| "conc_step S (Dropped i) s =
     (if i < length (cs_flights s)
      then let fl = cs_flights s ! i
           in s\<lparr> cs_flights := (cs_flights s)[i := fl\<lparr> fl_task := drop_task (fl_task fl) \<rparr>] \<rparr>
      else s)"
| "conc_step S (StatusCall X msg) s =
     (let (r, t) = update_status X msg (a_db (cs_app s)) in with_app ((cs_app s)\<lparr> a_db := t \<rparr>) s)"
| "conc_step S (ResultCall X res) s =
     (let (r, t, m) = report_result X res (a_db (cs_app s), cs_metrics s)
      in with_app ((cs_app s)\<lparr> a_db := t \<rparr>) (s\<lparr> cs_metrics := m \<rparr>))"
| "conc_step S (Reloaded u) s = with_app (with_config_mut (\<lambda>config. apply_update config u) (cs_app s)) s"
| "conc_step S Settled s = with_app (settle_app (sv_settle S) (cs_app s)) s"

definition conc_run ::
    "('r, 'j, 'q, 'f, 'b) stack \<Rightarrow> ('f, 'b) event list \<Rightarrow> ('r, 'q, 'f, 'b) conc \<Rightarrow> ('r, 'q, 'f, 'b) conc" where
  "conc_run S evs s = fold (conc_step S) evs s"

lemma conc_run_simps [simp]:
  "conc_run S [] s = s" "conc_run S (e # es) s = conc_run S es (conc_step S e s)"
  "conc_run S (es @ es') s = conc_run S es' (conc_run S es s)"
  by (simp_all add: conc_run_def)

lemma with_app_sel [simp]:
  "cs_app (with_app a s) = a" "cs_metrics (with_app a s) = cs_metrics s"
  "cs_flights (with_app a s) = cs_flights s" "cs_seen (with_app a s) = cs_seen s \<union> set (a_db a)"
  by (simp_all add: with_app_def)

section \<open>What is known of the shared state\<close>

text \<open>
  Relative to the rows \<open>H\<close> seen so far: the table and all the cache may answer are among them, a
  cached list holds its tenant's rows, and the protected part of the configuration is as at start.
\<close>

definition cache_known ::
    "('r, 'j, 'q, 'f) libs \<Rightarrow> ('r \<Rightarrow> string \<Rightarrow> 'j option) \<Rightarrow> backup set \<Rightarrow> 'r option \<Rightarrow> bool" where
  "cache_known L contents H conn =
     ((\<forall>i b. may_row (lb_cache L) contents conn i b \<longrightarrow> b \<in> H) \<and>
      (\<forall>tn xs n. may_list (lb_cache L) contents conn tn (xs, n) \<longrightarrow>
        (\<forall>b \<in> set xs. b \<in> H \<and> b_tenant_id b = tn)))"

definition known :: "('r, 'j, 'q, 'f, 'b, 'z) service_scheme \<Rightarrow> app_config \<Rightarrow> backup set \<Rightarrow> ('r, 'q) app_state \<Rightarrow> bool" where
  "known S config H a =
     (table_ok (a_db a) \<and> set (a_db a) \<subseteq> H \<and>
      cache_known (sv_libs S) (sv_contents S) H (a_cache a) \<and>
      protected_part (a_config a) = protected_part config)"

definition note_rows :: "('r, 'q) app_state \<Rightarrow> backup set \<Rightarrow> backup set" where
  "note_rows a H = H \<union> set (a_db a)"

lemma cache_knownI:
  "(\<And>i b. may_row (lb_cache L) contents conn i b \<Longrightarrow> b \<in> H) \<Longrightarrow>
   (\<And>tn xs n b. may_list (lb_cache L) contents conn tn (xs, n) \<Longrightarrow> b \<in> set xs \<Longrightarrow> b \<in> H \<and> b_tenant_id b = tn) \<Longrightarrow>
   cache_known L contents H conn"
  unfolding cache_known_def by blast

lemma cache_knownD:
  "cache_known L contents H conn \<Longrightarrow> may_row (lb_cache L) contents conn i b \<Longrightarrow> b \<in> H"
  "cache_known L contents H conn \<Longrightarrow> may_list (lb_cache L) contents conn tn (xs, n) \<Longrightarrow> b \<in> set xs \<Longrightarrow>
   b \<in> H \<and> b_tenant_id b = tn"
  unfolding cache_known_def by blast+

lemma cache_known_mono: "cache_known L contents H conn \<Longrightarrow> H \<subseteq> H' \<Longrightarrow> cache_known L contents H' conn"
  unfolding cache_known_def by blast

lemma cache_known_less:
  assumes "cache_known L contents H conn"
    and "\<And>i b. may_row (lb_cache L) contents conn' i b \<Longrightarrow> may_row (lb_cache L) contents conn i b"
    and "\<And>tn p. may_list (lb_cache L) contents conn' tn p \<Longrightarrow> may_list (lb_cache L) contents conn tn p"
  shows "cache_known L contents H conn'"
  using assms unfolding cache_known_def by blast

lemma known_mono: "known S config H a \<Longrightarrow> H \<subseteq> H' \<Longrightarrow> known S config H' a"
  unfolding known_def using cache_known_mono by blast

interpretation conc: interference "known S config" "(\<subseteq>)" note_rows for S config
  by unfold_locales (auto simp: note_rows_def intro: known_mono)

abbreviation safe_task ::
    "('r, 'j, 'q, 'f, 'b, 'z) service_scheme \<Rightarrow> app_config \<Rightarrow> (('r, 'q) app_state \<Rightarrow> ('r, 'q) app_state \<Rightarrow> bool) \<Rightarrow>
     (backup set \<Rightarrow> 'a \<Rightarrow> bool) \<Rightarrow> backup set \<Rightarrow> (('r, 'q) app_state, 'a) task \<Rightarrow> bool" where
  "safe_task S config \<equiv> interference.safe (known S config) (\<subseteq>) note_rows"

section \<open>The actions of a tenant's request\<close>

text \<open>What an action in the name of the claims may do to the table, and what a reply may show.\<close>

definition confined :: "claims \<Rightarrow> ('r, 'q) app_state \<Rightarrow> ('r, 'q) app_state \<Rightarrow> bool" where
  "confined c a a' =
     (filter (\<lambda>b. b_tenant_id b \<noteq> cl_tenant_id c) (a_db a') = filter (\<lambda>b. b_tenant_id b \<noteq> cl_tenant_id c) (a_db a) \<and>
      (\<forall>b \<in> set (a_db a'). b_id b \<in> b_id ` set (a_db a) \<longrightarrow> row_core b \<in> row_core ` set (a_db a)))"

definition shown_known :: "claims \<Rightarrow> backup set \<Rightarrow> 'f http_reply \<Rightarrow> bool" where
  "shown_known c H response =
     (\<forall>r \<in> set (body_rows (rp_body response)).
        \<exists>b \<in> H. b_tenant_id b = cl_tenant_id c \<and> r\<lparr> r_entropy := None \<rparr> = response_of b)"

definition handled_known :: "claims \<Rightarrow> backup set \<Rightarrow> 'f handled \<Rightarrow> bool" where
  "handled_known c H h = (\<forall>response. h = Inr response \<longrightarrow> shown_known c H response)"

text \<open>What an action of a handler may do: if it changes the table, then as the complete handler changes it.\<close>

definition handler_step ::
    "('r, 'j, 'q, 'f) libs \<Rightarrow> req_ctx \<Rightarrow> claims \<Rightarrow> rest_call \<Rightarrow> ('r, 'q) app_state \<Rightarrow> ('r, 'q) app_state \<Rightarrow> bool" where
  "handler_step L cx c call a a' =
     (confined c a a' \<and> (a_db a' = a_db a \<or> a_db a' = a_db (snd (run_handler L cx c call a))))"

lemma confined_same_db [simp]: "a_db a' = a_db a \<Longrightarrow> confined c a a'"
  by (auto simp: confined_def)

lemma response_of_entropy [simp]: "(response_of b)\<lparr> r_entropy := None \<rparr> = response_of b"
  by (simp add: response_of_def)

lemma handled_known_simps [simp]:
  "handled_known c H (Inl e)" "handled_known c H (Inr (reply n NoBody))"
  "handled_known c H (Inr (reply n (EnqueuedBody msg i)))"
  "b \<in> H \<Longrightarrow> b_tenant_id b = cl_tenant_id c \<Longrightarrow> handled_known c H (Inr (reply n (BackupBody (response_of b))))"
  "b \<in> H \<Longrightarrow> b_tenant_id b = cl_tenant_id c \<Longrightarrow>
     handled_known c H (Inr (reply n (BackupBody ((response_of b)\<lparr> r_entropy := ent \<rparr>))))"
  by (auto simp: handled_known_def shown_known_def)

lemma handled_known_list:
  "\<forall>b \<in> set items. b \<in> H \<and> b_tenant_id b = cl_tenant_id c \<Longrightarrow> handled_known c H (Inr (list_reply items tot offset limit))"
  by (auto simp: handled_known_def shown_known_def list_reply_def)

lemma note_rows_simps [simp]: "H \<subseteq> note_rows a H" "x \<in> H \<Longrightarrow> x \<in> note_rows a H" "set (a_db a) \<subseteq> note_rows a H"
  by (auto simp: note_rows_def)

lemma stmt_safe:
  assumes T: "tenant_stmt run (cl_tenant_id c)"
    and G: "\<And>a a'. confined c a a' \<Longrightarrow> a_db a' = snd (pg_exec l run (a_db a)) \<Longrightarrow> G a a'"
    and k: "\<And>H' t. H \<subseteq> H' \<Longrightarrow> table_ok t \<Longrightarrow> set t \<subseteq> H' \<Longrightarrow> set (snd (pg_exec l run t)) \<subseteq> H' \<Longrightarrow>
      safe_task S config G Q H' (k (fst (pg_exec l run t)))"
  shows "safe_task S config G Q H (and_then (stmt_task l run) k)"
  unfolding stmt_task_def
proof (rule conc.safe_act_then, intro conjI)
  note stmt = tenant_stmt.axioms(1) [OF T]
  fix H' a x a'
  assume H': "H \<subseteq> H'" and a: "known S config H' a" and run: "db_exec l run a = (x, a')"
  have a': "a_db a' = snd (pg_exec l run (a_db a))" "x = fst (pg_exec l run (a_db a))"
    "a_cache a' = a_cache a" "a_config a' = a_config a"
    using run by (auto simp: db_exec_eq)
  show "known S config (note_rows a' H') a'"
    using a a' table_stmt.exec_keeps_ok [OF stmt, of "a_db a" l] cache_known_mono [OF _ Un_upper1]
    by (auto simp: known_def note_rows_def)
  show "a' = a \<or> G a a'"
  proof (rule disjI2, rule G)
    show "confined c a a'"
      using tenant_stmt.exec_others_kept [OF T, of l "a_db a"] table_stmt.exec_core_kept [OF stmt, of _ l "a_db a"]
      by (auto simp: confined_def a'(1))
  qed (rule a'(1))
  show "safe_task S config G Q (note_rows a' H') (k x)"
    unfolding a'(2) using a a' H' by (intro k) (auto simp: known_def note_rows_def)
qed

lemma read_safe:
  assumes R: "read_stmt run"
    and k: "\<And>H' t. H \<subseteq> H' \<Longrightarrow> table_ok t \<Longrightarrow> set t \<subseteq> H' \<Longrightarrow> safe_task S config G Q H' (k (fst (pg_exec l run t)))"
  shows "safe_task S config G Q H (and_then (stmt_task l run) k)"
  unfolding stmt_task_def
  by (rule conc.safe_read_then)
    (use read_stmt.exec_read_only [OF R] k in \<open>auto simp: db_exec_eq known_def\<close>)

lemma read_config_safe:
  assumes "\<And>H' a. H \<subseteq> H' \<Longrightarrow> known S config H' a \<Longrightarrow> safe_task S config G Q H' (k (a_config a))"
  shows "safe_task S config G Q H (and_then read_config k)"
  unfolding read_config_def by (rule conc.safe_read_then) (use assms in auto)

lemma cache_read_safe:
  assumes "\<And>H' a. H \<subseteq> H' \<Longrightarrow> known S config H' a \<Longrightarrow> safe_task S config G Q H' (k (get (a_cache a)))"
  shows "safe_task S config G Q H (and_then (cache_task get) k)"
  unfolding cache_task_def by (rule conc.safe_read_then) (use assms in auto)

lemma cache_update_safe:
  assumes G: "\<And>a a'. a_db a' = a_db a \<Longrightarrow> G a a'"
    and upd: "\<And>H' conn. H \<subseteq> H' \<Longrightarrow> cache_known (sv_libs S) (sv_contents S) H' conn \<Longrightarrow>
      cache_known (sv_libs S) (sv_contents S) H' (upd conn)"
    and k: "\<And>H'. H \<subseteq> H' \<Longrightarrow> safe_task S config G Q H' k'"
  shows "safe_task S config G Q H (and_then (cache_update upd) (\<lambda>_. k'))"
  unfolding cache_update_def
proof (rule conc.safe_act_then, intro conjI)
  fix H' a and x :: unit and a'
  assume H': "H \<subseteq> H'" and a: "known S config H' a" and run: "((), a\<lparr> a_cache := upd (a_cache a) \<rparr>) = (x, a')"
  from run have a': "a' = a\<lparr> a_cache := upd (a_cache a) \<rparr>" by simp
  have "known S config H' a'"
    using a upd [OF H'] by (simp add: known_def a')
  then show "known S config (note_rows a' H') a'" by (rule conc.inv_upd)
  show "a' = a \<or> G a a'" by (rule disjI2, rule G) (simp add: a')
  show "safe_task S config G Q (note_rows a' H') k'" by (rule k) (use H' in \<open>auto simp: note_rows_def\<close>)
qed

section \<open>The handlers are safe\<close>

text \<open>What is cached is known: filling with known rows and dropping keep it so.\<close>

lemma cache_known_fill:
  assumes "redis_cache (lb_cache L) contents settle" and "cache_known L contents H conn"
  shows "b \<in> H \<Longrightarrow> cache_known L contents H (cache_set_backup (lb_cache L) cfg conn b)"
    and "\<forall>b \<in> set xs. b \<in> H \<and> b_tenant_id b = tn \<Longrightarrow>
      cache_known L contents H (cache_set_tenant_backups (lb_cache L) cfg conn tn xs n)"
  using cache_knownD [OF assms(2)]
  by (auto intro!: cache_knownI dest!: redis_cache.may_after_set_row [OF assms(1)] redis_cache.may_after_set_list [OF assms(1)])

lemma cache_known_drop:
  assumes "redis_cache (lb_cache L) contents settle" and "cache_known L contents H conn"
  shows "cache_known L contents H (cache_invalidate_backup (lb_cache L) conn i)"
    and "cache_known L contents H (cache_invalidate_tenant_backups (lb_cache L) conn tn)"
  by (rule cache_known_less [OF assms(2)]; erule redis_cache.may_after_drop [OF assms(1)])+

lemma cache_known_hit:
  assumes "redis_cache (lb_cache L) contents settle" and "cache_known L contents H conn"
  shows "cache_get_backup (lb_cache L) conn i = Some b \<Longrightarrow> b \<in> H"
    and "cache_get_tenant_backups (lb_cache L) conn tn = Some (xs, n) \<Longrightarrow> \<forall>b \<in> set xs. b \<in> H \<and> b_tenant_id b = tn"
  using cache_knownD [OF assms(2)]
  by (auto dest!: redis_cache.got_row_may [OF assms(1)] redis_cache.got_list_may [OF assms(1)])

lemma fetch_safe:
  assumes "\<And>H' b. H \<subseteq> H' \<Longrightarrow> b \<in> H' \<Longrightarrow> b_tenant_id b = cl_tenant_id c \<Longrightarrow> safe_task S config G Q H' (k (Inr b))"
    and "\<And>H' e. H \<subseteq> H' \<Longrightarrow> safe_task S config G Q H' (k (Inl e))"
  shows "safe_task S config G Q H (and_then (fetch_task L cx c i) k)"
proof -
  have "b \<in> set t \<and> b_tenant_id b = cl_tenant_id c"
    if "fst (pg_exec l (sql_select i (cl_tenant_id c)) t) = Inr (Some b)" for l t b
    using pg_exec_Inr [OF that] find_ownedD by (auto simp: sql_select_def)
  then show ?thesis
    unfolding fetch_task_def and_then_assoc
    by (intro read_safe sel.read_stmt_axioms) (auto intro!: assms split: sum.splits option.splits)
qed

lemma page_safe:
  assumes P: "planner (lb_order L)"
    and k: "\<And>H' items tot. H \<subseteq> H' \<Longrightarrow> \<forall>b \<in> set items. b \<in> H' \<and> b_tenant_id b = cl_tenant_id c \<Longrightarrow>
      safe_task S config G Q H' (k (Inr (items, tot)))"
    and e: "\<And>H' e. H \<subseteq> H' \<Longrightarrow> safe_task S config G Q H' (k (Inl e))"
  shows "safe_task S config G Q H (and_then (page_task L cx c st limit offset) k)"
proof -
  have rows: "\<forall>b \<in> set items. b \<in> set t \<and> b_tenant_id b = cl_tenant_id c"
    if "fst (pg_exec l (sql_page (lb_order L) (cl_tenant_id c) st limit offset) t) = Inr items" for l t items
    using page_own [OF P] sql_page_Inr pg_exec_Inr [OF that] by blast
  have count: "safe_task S config G Q H' (and_then (stmt_task (cx_link2 cx) (sql_count (cl_tenant_id c) st))
      (\<lambda>r. k (case r of Inl e \<Rightarrow> Inl (Database e) | Inr tot \<Rightarrow> Inr (items, tot))))"
    if "H \<subseteq> H'" "\<forall>b \<in> set items. b \<in> H' \<and> b_tenant_id b = cl_tenant_id c" for H' items
    by (rule read_safe [OF count.read_stmt_axioms])
      (use that in \<open>auto split: sum.splits intro!: k e\<close>)
  show ?thesis
    unfolding page_task_def and_then_assoc
    by (rule read_safe [OF page.read_stmt_axioms])
      (auto split: sum.splits simp: and_then_assoc intro!: e count dest!: rows)
qed

text \<open>From here on: a service whose libraries keep their laws, and a guarantee that allows what the claims may do.\<close>

lemma invalidate_safe:
  assumes R: "redis_cache (lb_cache (sv_libs S)) (sv_contents S) settle"
    and G: "\<And>a a'. a_db a' = a_db a \<Longrightarrow> G a a'"
    and k: "\<And>H'. H \<subseteq> H' \<Longrightarrow> safe_task S config G Q H' rest"
  shows "safe_task S config G Q H (invalidate_then (sv_libs S) c i rest)"
  unfolding invalidate_then_def drop_list_then_def
  by (intro cache_update_safe [OF G] cache_known_drop [OF R] k) auto

lemma write_tasks_safe:
  fixes cx :: req_ctx
  assumes R: "redis_cache (lb_cache (sv_libs S)) (sv_contents S) settle"
    and same: "\<And>a a'. a_db a' = a_db a \<Longrightarrow> G a a'"
  shows "(\<And>a a'. handler_step (sv_libs S) cx c (CreateBackup req) a a' \<Longrightarrow> G a a') \<Longrightarrow>
      safe_task S config G (handled_known c) H (create_task (sv_libs S) cx c req)" (is "PROP ?gc \<Longrightarrow> ?create")
    and "(\<And>a a'. handler_step (sv_libs S) cx c (UpdateBackup i ureq) a a' \<Longrightarrow> G a a') \<Longrightarrow>
      safe_task S config G (handled_known c) H (update_task (sv_libs S) cx c i ureq)" (is "PROP ?gu \<Longrightarrow> ?update")
    and "(\<And>a a'. handler_step (sv_libs S) cx c (DeleteBackup i) a a' \<Longrightarrow> G a a') \<Longrightarrow>
      safe_task S config G (handled_known c) H (delete_task (sv_libs S) cx c i)" (is "PROP ?gd \<Longrightarrow> ?delete")
proof -
  note ret = conc.safe_Done
  have new: "b \<in> set (snd (pg_exec l (sql_insert i now (cl_tenant_id c) p enc) t)) \<and> b_tenant_id b = cl_tenant_id c"
    if "fst (pg_exec l (sql_insert i now (cl_tenant_id c) p enc) t) = Inr b" for l i now p enc t b
    using pg_exec_Inr [OF that] sql_insert_Inr [of i now "cl_tenant_id c" p enc t b] by (auto simp: new_row_def)
  {
    assume G: "PROP ?gc"
    then show ?create
      unfolding create_task_def drop_list_then_def
      by (auto split: sum.splits intro!: ret stmt_safe [OF ins.tenant_stmt_axioms] cache_update_safe [OF same] G
          cache_known_drop [OF R] handled_known_simps(4) simp: handler_step_def create_db dest!: new; blast)
  }
  have changed: "b \<in> set (snd (pg_exec l (sql_update i (cl_tenant_id c) st sz now) t)) \<and> b_tenant_id b = cl_tenant_id c"
    if "fst (pg_exec l (sql_update i (cl_tenant_id c) st sz now) t) = Inr (Some b)" for l st sz now t b
    using pg_exec_Inr [OF that]
    by (auto simp: sql_update_def update_rows_def filter_eq_Cons_iff set_upd_where owned_def
        keeps_coreD [OF keeps_core_rows(1)] split: if_splits list.splits)
  {
    assume G: "PROP ?gu"
    then show ?update
      unfolding update_task_def Let_def
      by (auto split: sum.splits option.splits intro!: ret stmt_safe [OF upd.tenant_stmt_axioms] G
          invalidate_safe [OF R same] handled_known_simps(4) simp: handler_step_def update_db dest!: changed; blast)
  }
  {
    assume G: "PROP ?gd"
    then show ?delete
      unfolding delete_task_def
      by (auto split: sum.splits intro!: ret stmt_safe [OF del.tenant_stmt_axioms] G invalidate_safe [OF R same]
          simp: handler_step_def delete_db)
  }
qed

lemma get_task_safe:
  assumes R: "redis_cache (lb_cache (sv_libs S)) (sv_contents S) settle"
    and G: "\<And>a a'. a_db a' = a_db a \<Longrightarrow> G a a'"
  shows "safe_task S config G (handled_known c) H (get_task (sv_libs S) cx c i)"
proof -
  let ?L = "sv_libs S"
  have fill: "safe_task S config G (handled_known c) H' (fill_then ?L b (Done (Inr (reply 200 (BackupBody (response_of b))))))"
    if "b \<in> H'" "b_tenant_id b = cl_tenant_id c" for H' b
    unfolding fill_then_def store_then_def
    using that by (intro read_config_safe cache_update_safe [OF G] cache_known_fill(1) [OF R] conc.safe_Done
        handled_known_simps(4)) auto
  have miss: "safe_task S config G (handled_known c) H' (miss_task ?L cx c i)" for H'
    unfolding miss_task_def by (rule fetch_safe) (auto intro!: fill conc.safe_Done)
  show ?thesis
    unfolding get_task_def
  proof (rule cache_read_safe)
    fix H' a
    assume "H \<subseteq> H'" and a: "known S config H' a"
    have "b \<in> H'" if "cache_get_backup (lb_cache ?L) (a_cache a) i = Some b" for b
      using a cache_known_hit(1) [OF R _ that] by (auto simp: known_def)
    then show "safe_task S config G (handled_known c) H'
        (case cache_get_backup (lb_cache ?L) (a_cache a) i of
           Some cached \<Rightarrow> if b_tenant_id cached = cl_tenant_id c
             then Done (Inr (reply 200 (BackupBody (response_of cached)))) else miss_task ?L cx c i
         | None \<Rightarrow> miss_task ?L cx c i)"
      by (auto split: option.split intro!: miss conc.safe_Done handled_known_simps(4))
  qed
qed

lemma list_task_safe:
  assumes R: "redis_cache (lb_cache (sv_libs S)) (sv_contents S) settle"
    and P: "planner (lb_order (sv_libs S))" and G: "\<And>a a'. a_db a' = a_db a \<Longrightarrow> G a a'"
  shows "safe_task S config G (handled_known c) H (list_task (sv_libs S) cx c params)"
proof -
  let ?L = "sv_libs S" and ?reply = "\<lambda>items tot. Done (Inr (list_reply items tot (list_offset params) (list_limit params)))"
  have ret: "safe_task S config G (handled_known c) H' (?reply items tot)"
    if "\<forall>b \<in> set items. b \<in> H' \<and> b_tenant_id b = cl_tenant_id c" for H' items tot
    using that by (intro conc.safe_Done handled_known_list) auto
  have lost: "safe_task S config G (handled_known c) H' (Done (Inl e))" for H' e
    by (intro conc.safe_Done) simp
  have fill: "safe_task S config G (handled_known c) H' (and_then read_config (\<lambda>config.
       and_then (cache_update (\<lambda>conn. cache_set_tenant_backups (lb_cache ?L) (Some config) conn (cl_tenant_id c) items tot))
         (\<lambda>_. ?reply items tot)))"
    if "\<forall>b \<in> set items. b \<in> H' \<and> b_tenant_id b = cl_tenant_id c" for H' items tot
    using that by (intro read_config_safe cache_update_safe [OF G] cache_known_fill(2) [OF R] ret) auto
  have fetch: "safe_task S config G (handled_known c) H'
      (and_then (page_task ?L cx c (lp_status params) (list_limit params) (list_offset params))
         (\<lambda>r. case r of Inl e \<Rightarrow> Done (Inl e)
            | Inr (items, tot) \<Rightarrow> if use_cache then and_then read_config (\<lambda>config.
                 and_then (cache_update (\<lambda>conn.
                     cache_set_tenant_backups (lb_cache ?L) (Some config) conn (cl_tenant_id c) items tot))
                   (\<lambda>_. ?reply items tot)) else ?reply items tot))" for use_cache H'
    by (rule page_safe [OF P]) (auto intro!: fill ret lost)
  have hit: "\<forall>b \<in> set items. b \<in> H' \<and> b_tenant_id b = cl_tenant_id c"
    if "known S config H' a" "cache_get_tenant_backups (lb_cache ?L) (a_cache a) (cl_tenant_id c) = Some (items, tot)"
    for H' a items tot
    using that(1) cache_known_hit(2) [OF R _ that(2), where H = H'] by (simp add: known_def)
  show ?thesis
    unfolding list_task_def Let_def
    by (intro read_config_safe) (auto split: option.split intro!: cache_read_safe ret
      fetch [of _ True, unfolded if_True] fetch [of _ False, unfolded if_False]
      dest: bspec [OF hit])
qed

lemma analyze_task_safe:
  "safe_task S config G (handled_known c) H (analyze_task (sv_libs S) cx c i)"
  unfolding analyze_task_def
  by (rule fetch_safe)
    (auto intro!: conc.safe_read_then conc.safe_Done handled_known_simps(5) split: sum.splits simp del: and_then_act)

definition answer_known :: "claims \<Rightarrow> backup set \<Rightarrow> 'f handled option \<Rightarrow> bool" where
  "answer_known c H r = (\<forall>h. r = Some h \<longrightarrow> handled_known c H h)"

lemma answer_known_simps [simp]:
  "answer_known c H None" "answer_known c H (Some h) = handled_known c H h"
  by (simp_all add: answer_known_def)

lemma enqueue_task_safe:
  assumes G: "\<And>a a'. a_db a' = a_db a \<Longrightarrow> G a a'"
  shows "safe_task S config G (answer_known c) H (enqueue_task (sv_libs S) cx c i)"
proof -
  let ?ok = "\<lambda>r. map_option (map_sum id (\<lambda>_. reply 202 (EnqueuedBody ''backup job enqueued'' i))) r"
  have "safe_task S config G (answer_known c) H' (map_result ?ok (publish_task (sv_libs S) job))" for job H'
    unfolding map_result_def publish_task_def
  proof (rule conc.safe_act_then, intro conjI)
    fix H'' a x a'
    assume a: "known S config H'' a" and run: "(case a_amqp a of
         None \<Rightarrow> (Some (Inl (Internal ''RabbitMQ not configured'')), a)
       | Some channel \<Rightarrow>
           (case publish_job (lb_job_json (sv_libs S)) (lb_amqp (sv_libs S)) job channel of
              None \<Rightarrow> (None, a)
            | Some (Inl (AmqpError e), channel) \<Rightarrow>
                (Some (Inl (Internal (''failed to enqueue job: '' @ e))), a\<lparr> a_amqp := Some channel \<rparr>)
            | Some (Inr _, channel) \<Rightarrow> (Some (Inr ()), a\<lparr> a_amqp := Some channel \<rparr>))) = (x, a')"
    then obtain q where a': "a' = a\<lparr> a_amqp := q \<rparr>"
      using that [of "a_amqp a"] by (auto split: option.splits sum.splits amqp_error.splits)
    have "known S config H'' a'" using a by (simp add: known_def a')
    then show "known S config (note_rows a' H'') a'" by (rule conc.inv_upd)
    show "a' = a \<or> G a a'" by (rule disjI2, rule G) (simp add: a')
    have "answer_known c K (?ok x)" for K
      by (cases x) (auto simp: handled_known_def map_sum_def shown_known_def split: sum.splits)
    then show "safe_task S config G (answer_known c) (note_rows a' H'') (Done (?ok x))" by (intro conc.safe_Done)
  qed
  then show ?thesis
    unfolding enqueue_task_def by (intro fetch_safe) (auto intro!: conc.safe_Done)
qed

lemma handler_task_safe:
  assumes S: "service_ok S" and G: "\<And>a a'. handler_step (sv_libs S) cx c call a a' \<Longrightarrow> G a a'"
  shows "safe_task S config G (answer_known c) H (handler_task (sv_libs S) cx c call)"
proof -
  have R: "redis_cache (lb_cache (sv_libs S)) (sv_contents S) (sv_settle S)" and P: "planner (lb_order (sv_libs S))"
    using S by (simp_all add: service_ok_def)
  have some: "safe_task S config G (handled_known c) H t \<Longrightarrow> safe_task S config G (answer_known c) H (map_result Some t)" for t
    by (erule conc.safe_map_result) simp
  have same: "a_db a' = a_db a \<Longrightarrow> G a a'" for a a'
    by (rule G) (simp add: handler_step_def)
  show ?thesis
  proof (cases call)
    case (CreateBackup req)
    then show ?thesis using write_tasks_safe(1) [OF R same G [unfolded CreateBackup]] by (simp add: some)
  next
    case (UpdateBackup i ureq)
    then show ?thesis using write_tasks_safe(2) [OF R same G [unfolded UpdateBackup]] by (simp add: some)
  next
    case (DeleteBackup i)
    then show ?thesis using write_tasks_safe(3) [OF R same G [unfolded DeleteBackup]] by (simp add: some)
  qed (simp_all add: some get_task_safe [OF R same] list_task_safe [OF R P same] analyze_task_safe enqueue_task_safe [OF same])
qed

section \<open>A request is safe\<close>

text \<open>
  A request may change the table as its route's handler does, for the claims its token verifies to;
  the body may be the one the body limit leaves of it.
\<close>

definition routes_to :: "'b extractors \<Rightarrow> 'b http_request \<Rightarrow> rest_call \<Rightarrow> bool" where
  "routes_to E rq call = (\<exists>body. protected_route E (rq\<lparr> hq_body := body \<rparr>) = Routed (Inr call))"

definition request_confined :: "('r, 'j, 'q, 'f) libs \<Rightarrow> 'b extractors \<Rightarrow> app_config \<Rightarrow> clocks \<Rightarrow> req_ctx \<Rightarrow>
    'b http_request \<Rightarrow> ('r, 'q) app_state \<Rightarrow> ('r, 'q) app_state \<Rightarrow> bool" where
  "request_confined L E config ck cx rq a a' =
     (a_db a' = a_db a \<or>
      (\<exists>c call. admits (lb_auth L) config (ck_wall ck) (hq_headers rq) c \<and> routes_to E rq call \<and>
        handler_step L cx c call a a'))"

definition response_known :: "('r, 'j, 'q, 'f) libs \<Rightarrow> app_config \<Rightarrow> clocks \<Rightarrow> 'b http_request \<Rightarrow>
    backup set \<Rightarrow> 'f http_reply option \<Rightarrow> bool" where
  "response_known L config ck rq H response =
     (\<forall>rp. response = Some rp \<longrightarrow> body_rows (rp_body rp) \<noteq> [] \<longrightarrow>
       (\<exists>c. admits (lb_auth L) config (ck_wall ck) (hq_headers rq) c \<and> shown_known c H rp))"

lemma response_known_simps [simp]:
  "response_known L config ck rq H None"
  "body_rows (rp_body rp) = [] \<Longrightarrow> response_known L config ck rq H (Some rp)"
  by (simp_all add: response_known_def)

lemma endpoint_task_safe:
  assumes S: "service_ok S" and c: "admits (lb_auth (sv_libs S)) config (ck_wall ck) (hq_headers rq) c"
    and rt: "\<And>call. rt = Routed (Inr call) \<Longrightarrow> routes_to E rq call"
  shows "safe_task S config (request_confined (sv_libs S) E config ck cx rq) (response_known (sv_libs S) config ck rq) H
    (endpoint_task (sv_libs S) cx rt c)"
proof -
  let ?G = "request_confined (sv_libs S) E config ck cx rq" and ?Q = "response_known (sv_libs S) config ck rq"
  have G: "?G a a'" if "routes_to E rq call" "handler_step (sv_libs S) cx c call a a'" for call a a'
    using c that by (auto simp: request_confined_def)
  have "?Q H' (finish x)" if "answer_known c H' x" for H' x
    using that c by (cases x; cases "the x") (auto simp: finish_def response_known_def handled_known_def)
  then have "safe_task S config ?G ?Q H' (map_result finish (handler_task (sv_libs S) cx c call))"
    if "routes_to E rq call" for H' call
    by (intro conc.safe_map_result [OF handler_task_safe [OF S G [OF that]]]) auto
  with rt show ?thesis
    unfolding endpoint_task_def by (auto split: routed.splits sum.splits intro!: conc.safe_Done)
qed

lemma limit_task_safe:
  assumes nxt: "\<And>H'. safe_task S config (request_confined L E config ck cx rq) (response_known L config ck rq) H' nxt"
  shows "safe_task S config (request_confined L E config ck cx rq) (response_known L config ck rq) H (limit_task ck c nxt)"
proof -
  let ?G = "request_confined L E config ck cx rq" and ?Q = "response_known L config ck rq"
  have hdr: "?Q H' (map_option (with_rate_headers info) x)" if "?Q H' x" for H' info x
    using that by (cases x) (auto simp: response_known_def shown_known_def)
  show ?thesis
    unfolding limit_task_def
  proof (rule read_config_safe, rule conc.safe_act_then, intro conjI)
    fix H' a cfg v a'
    assume a: "known S config H' a" and run: "(case check_and_increment (rate_limit cfg) (cl_tenant_id c) (ck_mono ck) (a_counters a) of
        (v, counters') \<Rightarrow> (v, a\<lparr> a_counters := counters' \<rparr>)) = (v, a')"
    then obtain m where a': "a' = a\<lparr> a_counters := m \<rparr>" by (auto split: prod.splits)
    have "known S config H' a'" using a by (simp add: known_def a')
    then show "known S config (note_rows a' H') a'" by (rule conc.inv_upd)
    show "a' = a \<or> ?G a a'" by (simp add: a' request_confined_def)
    show "safe_task S config ?G ?Q (note_rows a' H')
        (case v of Inl _ \<Rightarrow> Done (Some (too_many_requests (rate_limit cfg)))
         | Inr info \<Rightarrow> map_result (map_option (with_rate_headers info)) nxt)"
      by (auto split: sum.split intro!: conc.safe_Done conc.safe_map_result [OF nxt] hdr)
  qed
qed

lemma admits_protected:
  "protected_part config' = protected_part config \<Longrightarrow> admits J config' now hs c = admits J config now hs c"
  by (simp add: admits_def protected_part_def)

lemma request_task_safe:
  assumes S: "service_ok S"
  shows "safe_task S config (request_confined (sv_libs S) (sv_extract S) config ck cx rq) (response_known (sv_libs S) config ck rq) H
    (request_task (sv_libs S) (sv_extract S) ck cx rq)"
proof (cases "protected_route (sv_extract S) rq = NoRoute")
  case True
  have empty: "body_rows (rp_body (reply n (LoginBody response))) = []"
    "body_rows (rp_body (reply n (ReadyBody st d r))) = []" "body_rows (rp_body (reply n NoBody)) = []"
    for n response st d r by simp_all
  have "safe_task S config G (response_known (sv_libs S) config ck rq) H (ready_task (sv_libs S) cx)" for G
    unfolding ready_task_def Let_def
    by (intro read_safe cache_read_safe conc.safe_Done response_known_simps empty, unfold_locales, simp)
  moreover have "safe_task S config G (response_known (sv_libs S) config ck rq) H (and_then read_config (\<lambda>config. Done (Some (
      case login (lb_auth (sv_libs S)) config (ck_utc ck) cred of
        Inl e \<Rightarrow> error_reply e | Inr response \<Rightarrow> reply 200 (LoginBody response)))))" for G cred
    by (intro read_config_safe conc.safe_Done) (auto split: sum.splits)
  ultimately show ?thesis
    using True unfolding request_task_def
    by (auto split: routed.splits public_route.splits sum.splits intro!: conc.safe_Done)
next
  case False
  let ?J = "lb_auth (sv_libs S)"
  have J: "jwt_library ?J" using S by (simp add: service_ok_def)
  have adm: "admits ?J config (ck_wall ck) (hq_headers rq) c"
    if "bearer_token ?J (hq_headers rq) = Inr token" "verify_token ?J (ck_wall ck) token (jwt_secret cfg) = Inr c"
      "protected_part cfg = protected_part config" for token c cfg
  proof -
    have "ck_wall ck \<le> unat (cl_exp c) + 60"
      using jwt_library.decode_fresh [OF J] that(2) by (simp add: verify_token_def)
    then have "admits ?J cfg (ck_wall ck) (hq_headers rq) c"
      using jwt_library.bearer_tokenD [OF J that(1)] that(2) unfolding admits_def by blast
    then show ?thesis using admits_protected [OF that(3)] by blast
  qed
  let ?E = "sv_extract S"
  have route: "routes_to ?E rq call" if "protected_route ?E rq = Routed (Inr call)" for call
    using that by (auto simp: routes_to_def intro!: exI [of _ "hq_body rq"])
  have "safe_task S config (request_confined (sv_libs S) ?E config ck cx rq) (response_known (sv_libs S) config ck rq) H
      (and_then (auth_task (sv_libs S) ck (hq_headers rq)) (\<lambda>r. case r of Inl response \<Rightarrow> Done (Some response)
         | Inr c \<Rightarrow> limit_task ck c (endpoint_task (sv_libs S) cx rt c)))"
    if "\<And>call. rt = Routed (Inr call) \<Longrightarrow> routes_to ?E rq call" for rt
    unfolding auth_task_def and_then_assoc
    by (rule read_config_safe)
      (auto split: sum.splits intro!: conc.safe_Done limit_task_safe endpoint_task_safe [OF S _ that] adm simp: known_def)
  from this [of "protected_route ?E rq"] False show ?thesis
    by (cases "protected_route ?E rq") (simp_all add: request_task_def route)
qed

text \<open>The layers around it keep a request safe: they decorate, refuse, cut off the body or give up.\<close>

definition stack_ok :: "('r, 'j, 'q, 'f, 'b) stack \<Rightarrow> bool" where
  "stack_ok S = (service_ok S \<and> (\<exists>too_large limited preflight. tower_layers (st_layers S) too_large limited preflight))"

lemma decorates_known: "decorates g \<Longrightarrow> response_known L config ck rq H r \<Longrightarrow> response_known L config ck rq H (map_option g r)"
  by (cases r) (simp_all add: response_known_def shown_known_def decorates_def)

lemma decorates_safe:
  "decorates g \<Longrightarrow> safe_task S config G (response_known L config ck rq) H t \<Longrightarrow>
   safe_task S config G (response_known L config ck rq) H (map_result (map_option g) t)"
  by (rule conc.safe_map_result, assumption, erule decorates_known)

lemma create_router_safe:
  assumes W: "tower_layers W too_large limited preflight"
    and routes: "\<And>n. safe_task S config (request_confined L E config ck cx (limited n rq)) (response_known L config ck (limited n rq)) H
      (routes (limited n rq))"
  shows "safe_task S config (request_confined L E config ck cx rq) (response_known L config ck rq) H (create_router W routes rq)"
proof -
  let ?safe = "safe_task S config (request_confined L E config ck cx rq) (response_known L config ck rq) H"
  have "(limited n rq)\<lparr> hq_body := body \<rparr> = rq\<lparr> hq_body := body \<rparr>" for n body
    by (simp add: tower_layers.limited_sel [OF W])
  then have "routes_to E (limited n rq) call = routes_to E rq call" for n call
    by (simp add: routes_to_def)
  then have "request_confined L E config ck cx (limited n rq) = request_confined L E config ck cx rq"
    "response_known L config ck (limited n rq) = response_known L config ck rq" for n
    by (simp_all add: fun_eq_iff request_confined_def response_known_def tower_layers.limited_sel [OF W])
  with routes have "?safe (tower_layers.limited_routes too_large limited routes rq)"
    by (auto simp: tower_layers.limited_routes_def [OF W] intro!: conc.safe_Done)
  then have t: "?safe (map_result (map_option g') (tower_layers.limited_routes too_large limited routes rq))"
    if "decorates g'" for g'
    using that by (intro decorates_safe)
  show ?thesis
    by (cases rule: tower_layers.create_router_cases [OF W, of rq routes])
      (auto intro!: conc.safe_Done decorates_safe conc.safe_cut t simp: decoratesD)
qed

lemma served_task_safe:
  assumes "stack_ok S"
  shows "safe_task S config (request_confined (sv_libs S) (sv_extract S) config ck cx rq) (response_known (sv_libs S) config ck rq) H
    (served_task (sv_libs S) (sv_extract S) (st_layers S) (st_render S) ck cx rq)"
proof -
  have S: "service_ok S" using assms by (simp add: stack_ok_def)
  obtain tl lim pf where "tower_layers (st_layers S) tl lim pf" using assms by (auto simp: stack_ok_def)
  from create_router_safe [OF this request_task_safe [OF S]] show ?thesis
    by (simp add: served_task_def main_router_def conc.safe_Done)
qed

section \<open>The invariant\<close>

definition flight_safe ::
    "('r, 'j, 'q, 'f, 'b, 'z) service_scheme \<Rightarrow> app_config \<Rightarrow> backup set \<Rightarrow> ('r, 'q, 'f, 'b) flight \<Rightarrow> bool" where
  "flight_safe S config H fl =
     safe_task S config (request_confined (sv_libs S) (sv_extract S) config (fl_clocks fl) (fl_ctx fl) (fl_request fl))
       (response_known (sv_libs S) config (fl_clocks fl) (fl_request fl)) H (fl_task fl)"

definition conc_ok :: "('r, 'j, 'q, 'f, 'b, 'z) service_scheme \<Rightarrow> app_config \<Rightarrow> ('r, 'q, 'f, 'b) conc \<Rightarrow> bool" where
  "conc_ok S config s =
     (known S config (cs_seen s) (cs_app s) \<and> (\<forall>fl \<in> set (cs_flights s). flight_safe S config (cs_seen s) fl))"

lemma flight_safe_mono: "flight_safe S config H fl \<Longrightarrow> H \<subseteq> H' \<Longrightarrow> flight_safe S config H' fl"
  unfolding flight_safe_def by (rule conc.safe_mono)

lemma conc_ok_app:
  assumes "conc_ok S config s" and "known S config (note_rows a (cs_seen s)) a"
    and "\<And>fl. fl \<in> set (cs_flights s') \<Longrightarrow> fl \<in> set (cs_flights s) \<or> flight_safe S config (note_rows a (cs_seen s)) fl"
    and "cs_seen s' = cs_seen s"
  shows "conc_ok S config (with_app a s')"
  using assms flight_safe_mono [of S config "cs_seen s"]
  unfolding conc_ok_def note_rows_def by (auto, blast)

lemma known_table:
  "known S config H a \<Longrightarrow> table_ok t \<Longrightarrow> known S config (note_rows (a\<lparr> a_db := t \<rparr>) H) (a\<lparr> a_db := t \<rparr>)"
  using cache_known_mono [OF _ Un_upper1] by (auto simp: known_def note_rows_def)

lemma known_settled:
  assumes "service_ok S" and "known S config H a"
  shows "known S config H (settle_app (sv_settle S) a)"
proof -
  have R: "redis_cache (lb_cache (sv_libs S)) (sv_contents S) (sv_settle S)" using assms(1) by (simp add: service_ok_def)
  have c: "sv_contents S (sv_settle S r) k = Some j \<Longrightarrow> sv_contents S r k = Some j" for r k j
    using redis_cache.settle_contents [OF R, of r k] by auto
  have "cache_known (sv_libs S) (sv_contents S) H (map_option (sv_settle S) (a_cache a))"
    by (rule cache_known_less [where conn = "a_cache a"])
      (use assms(2) in \<open>auto simp: known_def may_row_def may_list_def dest!: c\<close>)
  with assms(2) show ?thesis by (simp add: known_def settle_app_def)
qed

text \<open>An action of a flight, with what it guarantees to the others.\<close>

lemma poll_ok:
  assumes ok: "conc_ok S config s" and i: "i < length (cs_flights s)"
  shows "conc_ok S config (conc_step S (Poll i) s) \<and>
    request_confined (sv_libs S) (sv_extract S) config (fl_clocks (cs_flights s ! i)) (fl_ctx (cs_flights s ! i))
      (fl_request (cs_flights s ! i))
      (cs_app s) (cs_app (conc_step S (Poll i) s))"
proof -
  let ?fl = "cs_flights s ! i"
  obtain t a where p: "poll (fl_task ?fl) (cs_app s) = (t, a)" by fastforce
  have "flight_safe S config (cs_seen s) ?fl" and k: "known S config (cs_seen s) (cs_app s)"
    using ok nth_mem [OF i] by (auto simp: conc_ok_def)
  from conc.safe_poll [OF this(1) [unfolded flight_safe_def] k] p
  have a: "known S config (note_rows a (cs_seen s)) a"
    and t: "flight_safe S config (note_rows a (cs_seen s)) (?fl\<lparr> fl_task := t \<rparr>)"
    and g: "a = cs_app s \<or> request_confined (sv_libs S) (sv_extract S) config (fl_clocks ?fl) (fl_ctx ?fl) (fl_request ?fl) (cs_app s) a"
    by (simp_all add: flight_safe_def)
  have "conc_ok S config (with_app a (s\<lparr> cs_flights := (cs_flights s)[i := ?fl\<lparr> fl_task := t \<rparr>] \<rparr>))"
    by (rule conc_ok_app [OF ok a]) (use t in \<open>auto dest!: set_update_subset_insert [THEN subsetD]\<close>)
  with g i show ?thesis by (auto simp: p Let_def request_confined_def)
qed

lemma conc_step_ok:
  assumes S: "stack_ok S" and ok: "conc_ok S config s"
  shows "conc_ok S config (conc_step S ev s)"
proof -
  have S': "service_ok S" using S by (simp add: stack_ok_def)
  have k: "known S config (cs_seen s) (cs_app s)" using ok by (simp add: conc_ok_def)
  note app = conc_ok_app [OF ok, where s' = s]
  show ?thesis
  proof (cases ev)
    case (Arrive ck cx rq)
    then show ?thesis
      using ok served_task_safe [OF S, of config ck cx rq "cs_seen s"] by (auto simp: conc_ok_def flight_safe_def)
  next
    case (Poll i)
    with poll_ok [OF ok, of i] ok show ?thesis by (cases "i < length (cs_flights s)") simp_all
  next
    case (Dropped i)
    have "flight_safe S config (cs_seen s) (fl\<lparr> fl_task := drop_task (fl_task fl) \<rparr>)" if "flight_safe S config (cs_seen s) fl" for fl
      using that by (cases "fl_task fl") (auto simp: flight_safe_def drop_task_def intro!: conc.safe_Done)
    with Dropped ok show ?thesis
      by (auto simp: conc_ok_def Let_def dest!: set_update_subset_insert [THEN subsetD])
  next
    case (StatusCall X msg)
    obtain r t where u: "update_status X msg (a_db (cs_app s)) = (r, t)" by fastforce
    then have "table_ok t" using grpc_table_ok(1) [of "a_db (cs_app s)" X msg] k by (simp add: known_def)
    from app [OF known_table [OF k this]] StatusCall u show ?thesis by simp
  next
    case (ResultCall X res)
    obtain r t m where u: "report_result X res (a_db (cs_app s), cs_metrics s) = (r, t, m)" by (metis prod_cases3)
    then have "table_ok t" using grpc_table_ok(2) [of "a_db (cs_app s)" X res "cs_metrics s"] k by (simp add: known_def)
    from conc_ok_app [OF ok known_table [OF k this], of "s\<lparr> cs_metrics := m \<rparr>"] ResultCall u show ?thesis by simp
  next
    case (Reloaded u)
    have "known S config (cs_seen s) (with_config_mut (\<lambda>config. apply_update config u) (cs_app s))"
      using k by (simp add: known_def with_config_mut_def apply_update_protected)
    from app [OF conc.inv_upd [OF this]] Reloaded show ?thesis by simp
  next
    case Settled
    from app [OF conc.inv_upd [OF known_settled [OF S' k]]] Settled show ?thesis by simp
  qed
qed

lemma conc_run_ok: "stack_ok S \<Longrightarrow> conc_ok S config s \<Longrightarrow> conc_ok S config (conc_run S evs s)"
  by (induction evs arbitrary: s) (simp_all add: conc_step_ok)

end
