(* ===== verification/Api_Types.thy ===== *)
theory Api_Types
  imports Concurrent
begin

text \<open>
  The types of the API's answers: for every route the status codes and the shape of the body a
  client can get, for a success and for every kind of failure. A task keeps its type whatever the
  other requests do to the state between its actions, so the types hold under any interleaving and
  need nothing of the libraries.
\<close>

section \<open>The types\<close>

text \<open>A success of a handler.\<close>

fun success_type :: "rest_call \<Rightarrow> 'f http_reply \<Rightarrow> bool" where
  "success_type (CreateBackup req) rp =
     (rp_code rp = 201 \<and> (\<exists>r. rp_body rp = BackupBody r \<and> r_status r = ''pending'' \<and> r_size_bytes r = 0 \<and>
        r_source_path r = cr_source_path req \<and> r_encryption_enabled r = cr_encryption_enabled req \<and> r_entropy r = None))"
| "success_type (ListBackups params) rp =
     (rp_code rp = 200 \<and> (\<exists>l. rp_body rp = ListBody l \<and> lr_limit l = list_limit params \<and> lr_offset l = list_offset params \<and>
        (\<forall>r \<in> set (lr_items l). r_entropy r = None)))"
| "success_type (GetBackup i) rp = (rp_code rp = 200 \<and> (\<exists>r. rp_body rp = BackupBody r \<and> r_entropy r = None))"
| "success_type (UpdateBackup i req) rp = (rp_code rp = 200 \<and> (\<exists>r. rp_body rp = BackupBody r \<and> r_entropy r = None))"
| "success_type (DeleteBackup i) rp = (rp_code rp = 204 \<and> rp_body rp = NoBody)"
| "success_type (AnalyzeBackup i) rp = (rp_code rp = 200 \<and> (\<exists>r. rp_body rp = BackupBody r \<and> r_entropy r \<noteq> None))"
| "success_type (EnqueueBackup i) rp = (rp_code rp = 202 \<and> rp_body rp = EnqueuedBody ''backup job enqueued'' i)"

text \<open>The codes of its failures.\<close>

fun failure_codes :: "rest_call \<Rightarrow> nat set" where
  "failure_codes (CreateBackup req) = {400, 500}"
| "failure_codes (ListBackups params) = {500}"
| "failure_codes _ = {404, 500}"

text \<open>An error answer: its body repeats the status.\<close>

definition error_type :: "nat set \<Rightarrow> 'f http_reply \<Rightarrow> bool" where
  "error_type codes rp = (rp_code rp \<in> codes \<and> (\<exists>msg. rp_body rp = ErrorBody msg (rp_code rp)))"

fun handled_type :: "rest_call \<Rightarrow> 'f handled \<Rightarrow> bool" where
  "handled_type call (Inl e) = (er_code (into_response e) \<in> failure_codes call)"
| "handled_type call (Inr rp) = success_type call rp"

definition reply_type :: "'b extractors \<Rightarrow> 'b http_request \<Rightarrow> 'f http_reply \<Rightarrow> bool" where
  "reply_type E rq rp =
     (case protected_route E rq of
        NoRoute \<Rightarrow>
          (case public_route_of (hq_method rq) (hq_path rq) of
             Routed HealthRoute \<Rightarrow> rp_code rp = 200 \<and> rp_body rp = HealthBody ''ok''
           | Routed ReadyRoute \<Rightarrow>
               (\<exists>db redis. rp_code rp = (if db \<and> redis then 200 else 503) \<and>
                  rp_body rp = ReadyBody (if db \<and> redis then ''ready'' else ''not ready'') db redis)
           | Routed LoginRoute \<Rightarrow>
               (case ex_login E (hq_body rq) of
                  Inl e \<Rightarrow> rp_code rp = fst e \<and> rp_body rp = TextBody (snd e)
                | Inr cred \<Rightarrow>
                    rp_code rp = 200 \<and> (\<exists>token. rp_body rp = LoginBody \<lparr> lg_token = token, lg_token_type = ''Bearer'', lg_expires_in = 86400 \<rparr>) \<or>
                    error_type {401} rp)
           | BadMethod \<Rightarrow> rp_code rp = 405 \<and> rp_body rp = NoBody
           | NoRoute \<Rightarrow> rp_code rp = 404 \<and> rp_body rp = NoBody)
      | rt \<Rightarrow>
          error_type {401} rp \<or> rp_code rp = 429 \<and> (\<exists>secs. rp_body rp = RateLimitBody ''rate limit exceeded'' 429 secs) \<or>
          (case rt of
             Routed (Inr call) \<Rightarrow> success_type call rp \<or> error_type (failure_codes call) rp
           | Routed (Inl e) \<Rightarrow> rp_code rp = fst e \<and> rp_body rp = TextBody (snd e)
           | _ \<Rightarrow> rp_code rp = 405 \<and> rp_body rp = NoBody))"

section \<open>The handlers are typed\<close>

lemma error_codes [simp]:
  "er_code (into_response (Database e)) = 500" "er_code (into_response (not_found L i)) = 404"
  "er_code (into_response (Internal m)) = 500" "er_code (into_response (Validation m)) = 400"
  "er_code (into_response (Unauthorized m)) = 401" "er_code (into_response (Jwt j)) = 401"
  by (simp_all add: into_response_def not_found_def)

lemma response_of_types [simp]: "r_entropy (response_of b) = None"
  by (simp add: response_of_def)

lemma fetch_yields: "yields (\<lambda>r. \<forall>e. r = Inl e \<longrightarrow> er_code (into_response e) \<in> {404, 500}) (fetch_task L cx c i)"
  unfolding fetch_task_def by (rule yields_then) (auto split: sum.splits option.splits)

lemma page_yields: "yields (\<lambda>r. \<forall>e. r = Inl e \<longrightarrow> er_code (into_response e) = 500) (page_task L cx c st limit offset)"
  unfolding page_task_def by (intro yields_then) (auto split: sum.splits intro!: yields_then)

lemma then_yields:
  "yields P rest \<Longrightarrow> yields P (drop_list_then L c rest)" "yields P rest \<Longrightarrow> yields P (invalidate_then L c i rest)"
  "yields P rest \<Longrightarrow> yields P (store_then L config b rest)" "yields P rest \<Longrightarrow> yields P (fill_then L b rest)"
  unfolding drop_list_then_def invalidate_then_def store_then_def fill_then_def by (intro yields_then; assumption)+

lemma validation_code: "validate_source_path p = Inl e \<Longrightarrow> er_code (into_response e) = 400"
  by (auto simp: validate_source_path_def split: if_splits)

lemma inserted_row: "fst (db_exec l (sql_insert i now tn path enc) a) = Inr b \<Longrightarrow> b = new_row i now tn path enc"
  using pg_exec_Inr [of l "sql_insert i now tn path enc" "a_db a" b] sql_insert_Inr by (auto simp: db_exec_eq)

lemma handlers_typed:
  "yields (handled_type (CreateBackup req)) (create_task L cx c req)"
  "yields (handled_type (ListBackups params)) (list_task L cx c params)"
  "yields (handled_type (GetBackup i)) (get_task L cx c i)"
  "yields (handled_type (UpdateBackup i ureq)) (update_task L cx c i ureq)"
  "yields (handled_type (DeleteBackup i)) (delete_task L cx c i)"
  "yields (handled_type (AnalyzeBackup i)) (analyze_task L cx c i)"
proof -
  have ins: "yields (\<lambda>r. \<forall>b. r = Inr b \<longrightarrow> b = new_row (cx_new_id cx) (cx_now cx) (cl_tenant_id c) (cr_source_path req) (cr_encryption_enabled req))
      (stmt_task (cx_link cx) (sql_insert (cx_new_id cx) (cx_now cx) (cl_tenant_id c) (cr_source_path req) (cr_encryption_enabled req)))"
    unfolding stmt_task_def by (rule yields_act) (blast dest: inserted_row)
  show "yields (handled_type (CreateBackup req)) (create_task L cx c req)"
    unfolding create_task_def
    by (auto split: sum.splits dest: validation_code intro!: yields_and_then [OF ins] then_yields
        simp: new_row_def response_of_def)
  have lst: "handled_type (ListBackups params) (Inr (list_reply items tot (list_offset params) (list_limit params)))" for items tot
    by (simp add: list_reply_def)
  show "yields (handled_type (ListBackups params)) (list_task L cx c params)"
    unfolding list_task_def Let_def
    by (auto split: option.splits sum.splits if_splits simp del: and_then_act handled_type.simps(2)
        intro!: yields_then lst yields_and_then [OF page_yields])
  have miss: "yields (handled_type (GetBackup i)) (miss_task L cx c i)"
    unfolding miss_task_def by (auto split: sum.splits intro!: yields_and_then [OF fetch_yields] then_yields)
  show "yields (handled_type (GetBackup i)) (get_task L cx c i)"
    unfolding get_task_def by (rule yields_then) (auto split: option.splits intro!: miss)
  show "yields (handled_type (UpdateBackup i ureq)) (update_task L cx c i ureq)"
    unfolding update_task_def Let_def by (rule yields_then) (auto split: sum.splits option.splits intro!: then_yields)
  show "yields (handled_type (DeleteBackup i)) (delete_task L cx c i)"
    unfolding delete_task_def by (rule yields_then) (auto split: sum.splits intro!: then_yields)
  have join: "yields (\<lambda>r. \<forall>e. r = Inl e \<longrightarrow> er_code (into_response e) = 500)
      (act (\<lambda>a. (case cx_join cx of Some e \<Rightarrow> Inl (Internal (''task join error: '' @ e)) | None \<Rightarrow> Inr x, a)))" for x
    by (rule yields_act) (simp split: option.split)
  have ok: "handled_type (AnalyzeBackup i) (Inr (reply 200 (BackupBody ((response_of b)\<lparr> r_entropy := Some e \<rparr>))))" for b e
    by simp
  show "yields (handled_type (AnalyzeBackup i)) (analyze_task L cx c i)"
    unfolding analyze_task_def
  proof (rule yields_and_then [OF fetch_yields])
    fix r :: "app_error + backup"
    assume r: "\<forall>e. r = Inl e \<longrightarrow> er_code (into_response e) \<in> {404, 500}"
    show "yields (handled_type (AnalyzeBackup i)) (case r of Inl e \<Rightarrow> Done (Inl e)
        | Inr b \<Rightarrow> and_then (act (\<lambda>a. (case cx_join cx of
              Some e \<Rightarrow> Inl (Internal (''task join error: '' @ e))
            | None \<Rightarrow> Inr (shannon_entropy (lb_f64 L) (synthetic_data 4096 (b_source_path b))), a)))
          (\<lambda>r. Done (case r of Inl e \<Rightarrow> Inl e
            | Inr entropy \<Rightarrow> Inr (reply 200 (BackupBody ((response_of b)\<lparr> r_entropy := Some entropy \<rparr>))))))"
    proof (cases r)
      case (Inr b)
      show ?thesis
        unfolding Inr sum.case by (rule yields_and_then [OF join]) (simp split: sum.split)
    qed (use r in simp)
  qed
qed

lemma enqueue_typed: "yields (\<lambda>r. \<forall>h. r = Some h \<longrightarrow> handled_type (EnqueueBackup i) h) (enqueue_task L cx c i)"
proof -
  have pub: "yields (\<lambda>r. \<forall>e. r = Some (Inl e) \<longrightarrow> er_code (into_response e) = 500) (publish_task L job)" for job
    unfolding publish_task_def
    by (rule yields_act) (auto split: option.splits sum.splits amqp_error.splits)
  show ?thesis
    unfolding enqueue_task_def
    by (rule yields_and_then [OF fetch_yields])
      (auto split: sum.splits simp: map_sum_def intro!: yields_map_result [OF pub])
qed

lemma handler_task_typed: "yields (\<lambda>r. \<forall>h. r = Some h \<longrightarrow> handled_type call h) (handler_task L cx c call)"
  by (cases call) (auto intro: yields_map_result [OF handlers_typed(1)] yields_map_result [OF handlers_typed(2)]
      yields_map_result [OF handlers_typed(3)] yields_map_result [OF handlers_typed(4)]
      yields_map_result [OF handlers_typed(5)] yields_map_result [OF handlers_typed(6)] simp: enqueue_typed)

section \<open>A request is typed\<close>

text \<open>Types do not look at headers.\<close>

lemma error_reply_type: "error_type codes (error_reply e) \<longleftrightarrow> er_code (into_response e) \<in> codes"
  by (simp add: error_type_def error_reply_def Let_def)

lemma success_type_cong:
  "rp_code rp = rp_code rp' \<Longrightarrow> rp_body rp = rp_body rp' \<Longrightarrow> success_type call rp = success_type call rp'"
  by (cases call) simp_all

lemma reply_type_cong:
  "rp_code rp = rp_code rp' \<Longrightarrow> rp_body rp = rp_body rp' \<Longrightarrow> reply_type E rq rp = reply_type E rq rp'"
  using success_type_cong [of rp rp']
  unfolding reply_type_def error_type_def by (simp cong: routed.case_cong sum.case_cong public_route.case_cong)

definition response_typed :: "'b extractors \<Rightarrow> 'b http_request \<Rightarrow> 'f http_reply option \<Rightarrow> bool" where
  "response_typed E rq r = (\<forall>rp. r = Some rp \<longrightarrow> reply_type E rq rp)"

lemma endpoint_typed:
  assumes "rt = protected_route E rq" and "rt \<noteq> NoRoute"
  shows "yields (response_typed E rq) (endpoint_task L cx rt c)"
proof (cases "\<exists>call. rt = Routed (Inr call)")
  case True
  then obtain call where call: "protected_route E rq = Routed (Inr call)" using assms(1) by auto
  have "response_typed E rq (finish r)" if "\<forall>h. r = Some h \<longrightarrow> handled_type call h" for r
    using that by (cases r) (auto simp: finish_def response_typed_def reply_type_def call error_reply_type split: sum.splits)
  then show ?thesis
    using call assms(1) by (auto simp: endpoint_task_def intro!: yields_map_result [OF handler_task_typed])
next
  case False
  then show ?thesis
    using assms by (auto simp: endpoint_task_def response_typed_def reply_type_def reject_def split: routed.splits sum.splits)
qed

lemma typed_simps [simp]:
  "response_typed E rq None" "response_typed E rq (Some rp) = reply_type E rq rp"
  by (simp_all add: response_typed_def)

lemma with_rate_headers_typed: "response_typed E rq r \<Longrightarrow> response_typed E rq (map_option (with_rate_headers info) r)"
  by (cases r) (auto simp: with_rate_headers_def elim!: reply_type_cong [THEN iffD1, rotated -1])

lemma refused_typed:
  assumes "protected_route E rq \<noteq> NoRoute"
  shows "error_type {401} rp \<Longrightarrow> reply_type E rq rp" and "reply_type E rq (too_many_requests config)"
  using assms by (cases "protected_route E rq"; simp add: reply_type_def too_many_requests_def)+

lemma request_typed: "yields (response_typed E rq) (request_task L E ck cx rq)"
proof (cases "protected_route E rq = NoRoute")
  case True
  have ready: "yields (response_typed E rq) (ready_task L cx)" if "public_route_of (hq_method rq) (hq_path rq) = Routed ReadyRoute"
    unfolding ready_task_def Let_def
    by (intro yields_then) (use that True in \<open>auto simp: reply_type_def\<close>)
  have "er_code (into_response e) = 401" if "login J config now cred = Inl e" for J config now e cred
    using that by (auto simp: login_def create_token_def map_err_def split: if_splits sum.splits)
  moreover have "\<exists>token. r = \<lparr> lg_token = token, lg_token_type = ''Bearer'', lg_expires_in = 86400 \<rparr>"
    if "login J config now cred = Inr r" for J config now r cred
    using that by (auto simp: login_def split: if_splits sum.splits)
  ultimately have "yields (response_typed E rq) (and_then read_config (\<lambda>config. Done (Some (
      case login J config now cred of Inl e \<Rightarrow> error_reply e | Inr response \<Rightarrow> reply 200 (LoginBody response)))))"
    if "public_route_of (hq_method rq) (hq_path rq) = Routed LoginRoute" "ex_login E (hq_body rq) = Inr cred" for J now cred
    by (intro yields_then) (use that True in \<open>auto simp: reply_type_def error_reply_type split: sum.split\<close>)
  with True ready show ?thesis
    by (auto simp: request_task_def reply_type_def reject_def health_def split: routed.splits public_route.splits sum.splits)
next
  case False
  note refused = refused_typed [OF False]
  have limited: "yields (response_typed E rq) (limit_task ck c (endpoint_task L cx (protected_route E rq) c))" for c
    unfolding limit_task_def
    by (intro yields_then)
      (auto split: sum.split intro!: yields_map_result [OF endpoint_typed [OF refl False]] with_rate_headers_typed refused(2))
  have "yields (\<lambda>r. \<forall>rp. r = Inl rp \<longrightarrow> error_type {401} rp) (auth_task L ck hs)" for hs
    unfolding auth_task_def
    by (rule yields_then)
      (auto simp: error_reply_type bearer_token_def verify_token_def map_err_def split: sum.splits option.splits)
  then have "yields (response_typed E rq) (and_then (auth_task L ck hs) (\<lambda>r. case r of Inl response \<Rightarrow> Done (Some response)
      | Inr c \<Rightarrow> limit_task ck c (endpoint_task L cx (protected_route E rq) c)))" for hs
    by (rule yields_and_then) (auto split: sum.split intro: limited refused(1))
  with False show ?thesis by (cases "protected_route E rq") (simp_all add: request_task_def)
qed

section \<open>Every answer of the server is typed\<close>

text \<open>With the layers: a preflight, a body that is too long, a timeout, and else the routes' types.\<close>

definition served_type :: "'b extractors \<Rightarrow> 'b http_request \<Rightarrow> 'f http_reply \<Rightarrow> bool" where
  "served_type E rq rp =
     (if hq_path rq = [''metrics''] then rp_code rp = 200 \<and> (\<exists>t. rp_body rp = TextBody t) \<or> rp_code rp = 405 \<and> rp_body rp = NoBody
      else rp_code rp = 200 \<and> rp_body rp = NoBody \<or>
        rp_code rp = 413 \<and> rp_body rp = TextBody ''length limit exceeded'' \<or>
        rp_code rp = 408 \<and> rp_body rp = NoBody \<or>
        (\<exists>body. reply_type E (rq\<lparr> hq_body := body \<rparr>) rp))"

definition flight_typed :: "('r, 'j, 'q, 'f, 'b) stack \<Rightarrow> ('r, 'q, 'f, 'b) flight \<Rightarrow> bool" where
  "flight_typed S fl = yields (\<lambda>r. \<forall>rp. r = Some rp \<longrightarrow> served_type (sv_extract S) (fl_request fl) rp) (fl_task fl)"

lemma served_type_cong:
  "rp_code rp = rp_code rp' \<Longrightarrow> rp_body rp = rp_body rp' \<Longrightarrow> served_type E rq rp = served_type E rq rp'"
proof -
  assume eq: "rp_code rp = rp_code rp'" "rp_body rp = rp_body rp'"
  have "reply_type E (rq\<lparr> hq_body := body \<rparr>) rp = reply_type E (rq\<lparr> hq_body := body \<rparr>) rp'" for body
    by (rule reply_type_cong [OF eq])
  then show ?thesis by (simp add: served_type_def eq)
qed

lemma served_typed:
  assumes W: "tower_layers W too_large limited preflight"
  shows "yields (\<lambda>r. \<forall>rp. r = Some rp \<longrightarrow> served_type E rq rp) (served_task L E W render ck cx rq)"
proof (cases "hq_path rq = [''metrics'']")
  case True
  then show ?thesis by (auto simp: served_task_def main_router_def served_type_def)
next
  case False
  let ?routes = "request_task L E ck cx" and ?P = "\<lambda>r. \<forall>rp. r = Some rp \<longrightarrow> served_type E rq rp"
  have body: "\<exists>body. limited n rq = rq\<lparr> hq_body := body \<rparr>" for n
    by (rule tower_layers.limited_head [OF W])
  have "yields ?P (?routes (limited n rq))" for n
    by (rule yields_mono [OF request_typed])
      (use body [of n] False in \<open>auto simp: response_typed_def served_type_def\<close>)
  then have routes: "yields ?P (tower_layers.limited_routes too_large limited ?routes rq)"
    using False by (simp add: tower_layers.limited_routes_def [OF W]) (simp add: served_type_def)
  have deco: "?P (map_option g r)" if "decorates g" "?P r" for g r
    using that served_type_cong [of _ "g (the r)"] by (cases r) (auto simp: decoratesD)
  have t: "yields ?P (map_result (map_option g') (tower_layers.limited_routes too_large limited ?routes rq))"
    if "decorates g'" for g'
    by (rule yields_map_result [OF routes]) (rule deco [OF that])
  have "yields ?P (create_router W ?routes rq)"
  proof (cases rule: tower_layers.create_router_cases [OF W, of rq ?routes])
    case (1 g)
    then show ?thesis using False by (auto simp: served_type_def decoratesD)
  next
    case (2 g g')
    show ?thesis unfolding 2(4) by (rule yields_map_result [OF t [OF 2(2)]]) (rule deco [OF 2(1)])
  next
    case (3 g g' n)
    have "?P (Some (reply 408 NoBody))" using False by (simp add: served_type_def)
    then show ?thesis
      unfolding 3(4) by (rule yields_map_result [OF yields_cut [OF t [OF 3(2)]]]) (rule deco [OF 3(1)])
  qed
  with False show ?thesis by (simp add: served_task_def main_router_def)
qed

lemma conc_step_typed:
  assumes W: "tower_layers (st_layers S) too_large limited preflight" and ok: "\<forall>fl \<in> set (cs_flights s). flight_typed S fl"
  shows "\<forall>fl \<in> set (cs_flights (conc_step S ev s)). flight_typed S fl"
proof (cases ev)
  case (Arrive ck cx rq)
  then show ?thesis using ok served_typed [OF W] by (auto simp: flight_typed_def)
next
  case (Poll i)
  obtain t a where p: "poll (fl_task (cs_flights s ! i)) (cs_app s) = (t, a)" by fastforce
  have "flight_typed S ((cs_flights s ! i)\<lparr> fl_task := t \<rparr>)" if "i < length (cs_flights s)"
    using ok nth_mem [OF that] yields_poll [of _ "fl_task (cs_flights s ! i)" "cs_app s"] by (auto simp: flight_typed_def p)
  with Poll ok show ?thesis
    by (auto simp: Let_def p dest!: set_update_subset_insert [THEN subsetD])
next
  case (Dropped i)
  have "flight_typed S ((cs_flights s ! i)\<lparr> fl_task := drop_task (fl_task (cs_flights s ! i)) \<rparr>)" if "i < length (cs_flights s)"
    using ok nth_mem [OF that] by (cases "fl_task (cs_flights s ! i)") (auto simp: flight_typed_def drop_task_def)
  with Dropped ok show ?thesis
    by (auto simp: Let_def dest!: set_update_subset_insert [THEN subsetD])
qed (use ok in \<open>auto split: prod.split\<close>)

lemma conc_run_typed:
  assumes W: "tower_layers (st_layers S) too_large limited preflight" and ok: "\<forall>fl \<in> set (cs_flights s). flight_typed S fl"
  shows "\<forall>fl \<in> set (cs_flights (conc_run S evs s)). flight_typed S fl"
  using ok
proof (induction evs arbitrary: s)
  case (Cons ev evs)
  show ?case unfolding conc_run_simps by (rule Cons.IH) (rule conc_step_typed [OF W Cons.prems])
qed simp

end
