(* ===== verification/Demo_Service.thy ===== *)
theory Demo_Service
  imports System
begin

text \<open>
  A running instance on the reference libraries: a service with its extractors, a signed token of the
  demonstration user, and a request with it. The witnesses of the properties of the whole service
  run on it.
\<close>

definition demo_service :: "(doc mem_store, doc, doc mem_broker, real, unit) service" where
  "demo_service = \<lparr> sv_libs = demo_libs, sv_extract = demo_extractors, sv_contents = mem_contents, sv_settle = mem_tick \<rparr>"

lemma demo_service_sel [simp]:
  "sv_libs demo_service = demo_libs" "sv_extract demo_service = demo_extractors"
  "sv_contents demo_service = mem_contents" "sv_settle demo_service = mem_tick"
  by (simp_all add: demo_service_def)

lemma demo_service_ok: "service_ok demo_service"
  using redis_demo by (simp add: service_ok_def demo_jwt.jwt_library_axioms created_desc.planner_axioms)

lemma demo_sys_ok: "sys_ok demo_service (demo_app [demo_row 1], m)"
  by (simp add: sys_ok_def lists_own_def may_list_def mem_contents_def empty_store_def)

text \<open>A token of the demonstration user, and a request with it.\<close>

definition demo_token :: string where
  "demo_token = demo_text demo_user (jwt_secret dev_config)"

definition demo_get :: "string \<Rightarrow> unit http_request" where
  "demo_get seg =
     \<lparr> hq_method = GET, hq_path = api_backups @ [seg], hq_query = [],
       hq_headers = [''Authorization'' \<mapsto> ''Bearer '' @ demo_token], hq_body = () \<rparr>"

lemma demo_token_signed: "jw_encode demo_jwt demo_user (jwt_secret dev_config) = Inr demo_token"
proof -
  have "visible (demo_text demo_user (jwt_secret dev_config))"
    by (simp add: demo_text_def demo_user_def demo_claims_def dev_config_def show_u64_def visible_def
        show_nat.simps digit_char_def)
  then show ?thesis
    by (simp add: demo_jwt_def demo_token_def demo_user_def demo_claims_def)
qed

lemma demo_user_tenant: "cl_tenant_id demo_user = demo_tenant"
  by (simp add: demo_user_def)

lemma demo_auth:
  "auth_middleware demo_jwt dev_config 0 [''Authorization'' \<mapsto> ''Bearer '' @ demo_token] nxt s = nxt demo_user s"
proof -
  have "bearer_token demo_jwt [''Authorization'' \<mapsto> ''Bearer '' @ demo_token] = Inr demo_token"
    by (rule demo_jwt.bearer_tokenI [OF _ demo_jwt.token_text [OF demo_token_signed] refl]) simp
  moreover have "verify_token demo_jwt 0 demo_token (jwt_secret dev_config) = Inr demo_user"
    using demo_jwt.decode_encode [OF demo_token_signed, of 0] by (simp add: verify_token_def)
  ultimately show ?thesis by (simp only: auth_middleware_def sum.case)
qed

lemma demo_get_response:
  "\<exists>response a'. handle_request demo_libs demo_extractors \<lparr> ck_wall = 0, ck_utc = 0, ck_mono = 0 \<rparr> (demo_cx 1)
      (demo_get (std_uuid_fmt 1)) (demo_app [demo_row 1]) = (Some response, a') \<and>
    rp_body response = BackupBody (response_of (demo_row 1))"
proof -
  let ?rq = "demo_get (std_uuid_fmt 1)" and ?ck = "\<lparr> ck_wall = 0, ck_utc = 0, ck_mono = 0 \<rparr>"
  have rt: "protected_route demo_extractors ?rq = Routed (Inr (GetBackup 1))"
    by (simp add: protected_route_def demo_get_def api_backups_def demo_extractors_def std_parse_fmt)
  have own: "owned_row 1 (cl_tenant_id demo_user) [demo_row 1] = Some (demo_row 1)"
    by (simp add: owned_row_def owned_def demo_user_def)
  have get: "fst (get_backup demo_libs (demo_cx 1) demo_user 1 (demo_app [demo_row 1])) =
      Inr (reply 200 (BackupBody (response_of (demo_row 1))))"
    using get_backup_result [OF redis_demo fresh_demo_app, where cx = "demo_cx 1" and c = demo_user and i = 1] own
    by simp
  then obtain a1 where g: "get_backup demo_libs (demo_cx 1) demo_user 1 (demo_app [demo_row 1]) =
      (Inr (reply 200 (BackupBody (response_of (demo_row 1)))), a1)"
    by (metis prod.collapse)
  have lim: "fst (check_and_increment default_rate_limit t 0 Map.empty) = verdict default_rate_limit 0" for t
    by (rule check_new_window) simp
  have "handle_request demo_libs demo_extractors ?ck (demo_cx 1) ?rq (demo_app [demo_row 1]) =
      rate_limited ?ck (run_endpoint demo_libs (demo_cx 1) (Routed (Inr (GetBackup 1)))) demo_user (demo_app [demo_row 1])"
    unfolding handle_request_def rt by (simp only: routed.case) (simp add: demo_get_def demo_auth del: append.simps)
  moreover have "rate_limit dev_config = default_rate_limit"
    by (simp add: dev_config_def)
  ultimately show ?thesis
    using lim [of demo_tenant]
    by (cases "check_and_increment default_rate_limit demo_tenant 0 Map.empty")
      (auto simp: rate_limited_def rate_limit_middleware_def run_endpoint_def finish_def g verdict_def
        default_rate_limit_def demo_user_tenant)
qed

end
