(* ===== verification/Interleavings.thy ===== *)
theory Interleavings
  imports Api_Types Demo_Service
begin

text \<open>
  What holds under every interleaving of the handlers' actions, and what does not. The first part
  is about reachable states: the events since start, what responses show and what an action may
  write. The second part is about the window between a statement and the
  cache command after it.
\<close>

section \<open>Runs from the start\<close>

definition conc_start :: "('r, 'q) app_state \<Rightarrow> job_metrics \<Rightarrow> ('r, 'q, 'f, 'b) conc" where
  "conc_start a m = \<lparr> cs_app = a, cs_metrics = m, cs_flights = [], cs_seen = set (a_db a) \<rparr>"

text \<open>A state to start from: the constraints hold and the cache answers with stored rows, if at all.\<close>

definition startable :: "('r, 'j, 'q, 'f, 'b, 'z) service_scheme \<Rightarrow> ('r, 'q) app_state \<Rightarrow> bool" where
  "startable S a =
     (table_ok (a_db a) \<and> cache_known (sv_libs S) (sv_contents S) (set (a_db a)) (a_cache a))"

lemma conc_start_sel [simp]:
  "cs_app (conc_start a m) = a" "cs_metrics (conc_start a m) = m" "cs_flights (conc_start a m) = []"
  "cs_seen (conc_start a m) = set (a_db a)"
  by (simp_all add: conc_start_def)

lemma conc_start_ok: "startable S a \<Longrightarrow> conc_ok S (a_config a) (conc_start a m)"
  by (simp add: startable_def conc_ok_def known_def)

lemma conc_run_start_ok:
  "stack_ok S \<Longrightarrow> startable S a \<Longrightarrow> conc_ok S (a_config a) (conc_run S evs (conc_start a m))"
  by (intro conc_run_ok conc_start_ok)

text \<open>The history variable holds nothing but rows of the table at some moment.\<close>

lemma conc_step_seen: "cs_seen (conc_step S ev s) \<subseteq> cs_seen s \<union> set (a_db (cs_app (conc_step S ev s)))"
  by (cases ev) (auto simp: Let_def split: prod.splits if_splits)

lemma conc_run_seen:
  "b \<in> cs_seen (conc_run S evs (conc_start a m)) \<Longrightarrow>
   \<exists>n \<le> length evs. b \<in> set (a_db (cs_app (conc_run S (take n evs) (conc_start a m))))"
proof (induction evs rule: rev_induct)
  case (snoc e es)
  have "b \<in> cs_seen (conc_run S es (conc_start a m)) \<or>
      b \<in> set (a_db (cs_app (conc_run S (es @ [e]) (conc_start a m))))"
    using snoc.prems conc_step_seen [of S e "conc_run S es (conc_start a m)"] by auto
  then show ?case
  proof
    assume "b \<in> cs_seen (conc_run S es (conc_start a m))"
    from snoc.IH [OF this] obtain n where "n \<le> length es"
      "b \<in> set (a_db (cs_app (conc_run S (take n es) (conc_start a m))))" by blast
    then show ?thesis by (intro exI [of _ n]) simp
  next
    assume "b \<in> set (a_db (cs_app (conc_run S (es @ [e]) (conc_start a m))))"
    then show ?thesis by (intro exI [of _ "length (es @ [e])"]) simp
  qed
qed simp

section \<open>Flights\<close>

lemma length_flights: "length (cs_flights s) \<le> length (cs_flights (conc_step S ev s))"
  by (cases ev) (simp_all add: Let_def split: prod.splits)

lemma step_task:
  assumes "i < length (cs_flights s)"
  shows "fl_task (cs_flights (conc_step S ev s) ! i) =
    (if ev = Poll i then fst (poll (fl_task (cs_flights s ! i)) (cs_app s))
     else if ev = Dropped i then drop_task (fl_task (cs_flights s ! i))
     else fl_task (cs_flights s ! i))"
  using assms by (cases ev) (auto simp: Let_def nth_append nth_list_update split: prod.splits)

lemma step_flight:
  "i < length (cs_flights s) \<Longrightarrow>
   fl_request (cs_flights (conc_step S ev s) ! i) = fl_request (cs_flights s ! i) \<and>
   fl_clocks (cs_flights (conc_step S ev s) ! i) = fl_clocks (cs_flights s ! i) \<and>
   fl_ctx (cs_flights (conc_step S ev s) ! i) = fl_ctx (cs_flights s ! i)"
  by (cases ev) (auto simp: Let_def nth_append nth_list_update split: prod.splits)

lemma run_flight:
  "i < length (cs_flights s) \<Longrightarrow>
   i < length (cs_flights (conc_run S evs s)) \<and>
   fl_request (cs_flights (conc_run S evs s) ! i) = fl_request (cs_flights s ! i) \<and>
   fl_clocks (cs_flights (conc_run S evs s) ! i) = fl_clocks (cs_flights s ! i)"
proof (induction evs arbitrary: s)
  case (Cons ev evs)
  have "i < length (cs_flights (conc_step S ev s))" using Cons.prems length_flights [of s S ev] by simp
  from Cons.IH [OF this] step_flight [OF Cons.prems, of S ev] show ?case by simp
qed simp

lemma drop_task_steps: "steps_le n t \<Longrightarrow> steps_le n (drop_task t)"
  by (cases t) (simp_all add: drop_task_def)

lemma run_steps:
  "i < length (cs_flights s) \<Longrightarrow> steps_le n (fl_task (cs_flights s ! i)) \<Longrightarrow>
   steps_le (n - count_list evs (Poll i)) (fl_task (cs_flights (conc_run S evs s) ! i))"
proof (induction evs arbitrary: s n)
  case (Cons ev evs)
  let ?s = "conc_step S ev s" and ?m = "if ev = Poll i then n - 1 else n"
  have "steps_le ?m (fl_task (cs_flights ?s ! i))"
    using Cons.prems by (simp add: step_task steps_le_poll [unfolded One_nat_def] drop_task_steps)
  moreover have "i < length (cs_flights ?s)" using Cons.prems(1) length_flights [of s S ev] by simp
  ultimately have "steps_le (?m - count_list evs (Poll i)) (fl_task (cs_flights (conc_run S evs ?s) ! i))"
    by (intro Cons.IH)
  then show ?case by (simp split: if_splits)
qed simp

text \<open>The layers add no actions.\<close>

lemma served_task_steps:
  assumes W: "tower_layers W too_large limited preflight"
  shows "steps_le 9 (served_task L E W render ck cx rq)"
proof -
  let ?routes = "request_task L E ck cx"
  have "steps_le 9 (tower_layers.limited_routes too_large limited ?routes rq)"
    by (simp add: tower_layers.limited_routes_def [OF W] request_task_steps)
  then have "steps_le 9 (create_router W ?routes rq)"
    by (cases rule: tower_layers.create_router_cases [OF W, of rq ?routes])
      (auto intro!: steps_le_map_result steps_le_cut)
  then show ?thesis by (simp add: served_task_def main_router_def)
qed

section \<open>Properties of all interleavings\<close>

text \<open>
  C1: No tenant sees another's rows, and none sees a row that was never stored, under any
  interleaving. Whatever requests are in flight at once, wherever they are preempted or dropped,
  and whatever the worker, reloads and expiries do in between: a response that shows a backup
  answers a request with a token of the tenant the backup belongs to, and what it shows is a row
  the table held at some moment since the start (the cache invents and mixes nothing).
\<close>

theorem interleaved_responses_are_own_rows:
  assumes S: "stack_ok S" and start: "startable S a"
    and fl: "fl \<in> set (cs_flights (conc_run S evs (conc_start a m)))"
    and resp: "fl_task fl = Done (Some response)" and r: "r \<in> set (body_rows (rp_body response))"
  shows "\<exists>token c n b. hq_headers (fl_request fl) ''Authorization'' = Some (''Bearer '' @ token) \<and>
    verify_token (lb_auth (sv_libs S)) (ck_wall (fl_clocks fl)) token (jwt_secret (a_config a)) = Inr c \<and>
    b_tenant_id b = cl_tenant_id c \<and> r\<lparr> r_entropy := None \<rparr> = response_of b \<and>
    n \<le> length evs \<and> b \<in> set (a_db (cs_app (conc_run S (take n evs) (conc_start a m))))"
proof -
  let ?s = "conc_run S evs (conc_start a m)"
  have "flight_safe S (a_config a) (cs_seen ?s) fl"
    using conc_run_start_ok [OF S start, of evs m] fl by (simp add: conc_ok_def)
  then have "response_known (sv_libs S) (a_config a) (fl_clocks fl) (fl_request fl) (cs_seen ?s) (Some response)"
    unfolding flight_safe_def resp by (rule conc.safe_result)
  moreover have "body_rows (rp_body response) \<noteq> []" using r by auto
  ultimately obtain c where c: "admits (lb_auth (sv_libs S)) (a_config a) (ck_wall (fl_clocks fl)) (hq_headers (fl_request fl)) c"
    and "shown_known c (cs_seen ?s) response"
    by (auto simp: response_known_def)
  with r obtain b where b: "b \<in> cs_seen ?s" "b_tenant_id b = cl_tenant_id c" "r\<lparr> r_entropy := None \<rparr> = response_of b"
    by (auto simp: shown_known_def)
  from conc_run_seen [OF b(1)] c b(2,3) show ?thesis unfolding admits_def by blast
qed

text \<open>
  C4: No action oversteps its tenant. In every state the interleaved service can reach, an action of a
  request in flight leaves the table as it is, or the request's token verifies under the secret of
  the start and the action changes rows of that token's tenant only, keeping owner, path, flag
  and creation time of every row; and whatever happens, the constraints of the table hold and the
  protected settings are those of the start.
\<close>

theorem interleaved_writes_confined:
  assumes S: "stack_ok S" and start: "startable S a"
    and s: "s = conc_run S evs (conc_start a m)" and i: "i < length (cs_flights s)"
  shows "(a_db (cs_app (conc_step S (Poll i) s)) = a_db (cs_app s) \<or>
      (\<exists>token c. hq_headers (fl_request (cs_flights s ! i)) ''Authorization'' = Some (''Bearer '' @ token) \<and>
        verify_token (lb_auth (sv_libs S)) (ck_wall (fl_clocks (cs_flights s ! i))) token (jwt_secret (a_config a)) = Inr c \<and>
        confined c (cs_app s) (cs_app (conc_step S (Poll i) s)))) \<and>
    table_ok (a_db (cs_app s)) \<and> protected_part (a_config (cs_app s)) = protected_part (a_config a)"
proof -
  have ok: "conc_ok S (a_config a) s" using conc_run_start_ok [OF S start, of evs m] by (simp add: s)
  have g: "request_confined (sv_libs S) (sv_extract S) (a_config a) (fl_clocks (cs_flights s ! i))
      (fl_ctx (cs_flights s ! i)) (fl_request (cs_flights s ! i)) (cs_app s) (cs_app (conc_step S (Poll i) s))"
    using poll_ok [OF ok i] by blast
  have k: "table_ok (a_db (cs_app s)) \<and> protected_part (a_config (cs_app s)) = protected_part (a_config a)"
    using ok by (simp add: conc_ok_def known_def)
  show ?thesis using g k unfolding request_confined_def handler_step_def admits_def by blast
qed

text \<open>
  C14: The API is typed. Under every interleaving of requests, drops, worker calls, reloads and
  expiries, whatever the libraries, the database and the broker answer: a response has the status codes
  and the body its route documents, a success the shape of its handler's result, an error a
  body that repeats its status, and nothing else than the layers' own 200, 408 and 413 beside it.
\<close>

theorem interleaved_responses_typed:
  assumes W: "tower_layers (st_layers S) too_large limited preflight"
    and fl: "fl \<in> set (cs_flights (conc_run S evs (conc_start a m)))" and resp: "fl_task fl = Done (Some rp)"
  shows "served_type (sv_extract S) (fl_request fl) rp"
proof -
  have "flight_typed S fl"
    using conc_run_typed [OF W, of "conc_start a m" evs] fl by simp
  with resp show ?thesis by (simp add: flight_typed_def)
qed

section \<open>The window between a statement and the cache command after it\<close>

lemma map_result_Done [simp]: "map_result g (Done x) = Done (g x)"
  by (simp add: map_result_def)

lemma poll_map_result:
  "poll (map_result g (and_then (act f) k)) s = (map_result g (k (fst (f s))), snd (f s))"
  by (simp add: map_result_def map_prod_def split_beta)

text \<open>The actions of a GET that misses, and of a PATCH that finds its row.\<close>

lemma get_actions:
  "cache_get_backup (lb_cache L) (a_cache a) i = None \<Longrightarrow>
     poll (map_result g (get_task L cx c i)) a = (map_result g (miss_task L cx c i), a)"
  "cx_link cx = Up \<Longrightarrow> owned_row i (cl_tenant_id c) (a_db a) = Some b \<Longrightarrow>
     poll (map_result g (miss_task L cx c i)) a =
       (map_result g (fill_then L b (Done (Inr (reply 200 (BackupBody (response_of b)))))), a)"
  "poll (map_result g (fill_then L b rest)) a = (map_result g (store_then L (a_config a) b rest), a)"
  "poll (map_result g (store_then L config b rest)) a =
     (map_result g rest, a\<lparr> a_cache := cache_set_backup (lb_cache L) (Some config) (a_cache a) b \<rparr>)"
  unfolding get_task_def miss_task_def fill_then_def store_then_def fetch_task_def and_then_assoc task_action_defs
    poll_map_result
  by (simp_all add: db_exec_eq sql_select_def owned_row_def)

lemma patch_actions:
  "table_ok (a_db a) \<Longrightarrow> cx_link cx = Up \<Longrightarrow> owned_row i (cl_tenant_id c) (a_db a) = Some b \<Longrightarrow>
     poll (map_result g (update_task L cx c i req)) a =
       (map_result g (invalidate_then L c i (Done (Inr (reply 200 (BackupBody (response_of
          (coalesce_row (map_option status_fmt (ur_status req)) (ur_size_bytes req) (cx_now cx) b))))))),
        a\<lparr> a_db := snd (sql_update i (cl_tenant_id c) (map_option status_fmt (ur_status req)) (ur_size_bytes req)
             (cx_now cx) (a_db a)) \<rparr>)"
  "poll (map_result g (invalidate_then L c i rest)) a =
     (map_result g (drop_list_then L c rest), a\<lparr> a_cache := cache_invalidate_backup (lb_cache L) (a_cache a) i \<rparr>)"
  "poll (map_result g (drop_list_then L c rest)) a =
     (map_result g rest, a\<lparr> a_cache := cache_invalidate_tenant_backups (lb_cache L) (a_cache a) (cl_tenant_id c) \<rparr>)"
proof -
  assume ok: "table_ok (a_db a)" and up: "cx_link cx = Up" and row: "owned_row i (cl_tenant_id c) (a_db a) = Some b"
  have st: "case map_option status_fmt (ur_status req) of None \<Rightarrow> True | Some s \<Rightarrow> status_check s"
    by (simp split: option.splits)
  show "poll (map_result g (update_task L cx c i req)) a =
       (map_result g (invalidate_then L c i (Done (Inr (reply 200 (BackupBody (response_of
          (coalesce_row (map_option status_fmt (ur_status req)) (ur_size_bytes req) (cx_now cx) b))))))),
        a\<lparr> a_db := snd (sql_update i (cl_tenant_id c) (map_option status_fmt (ur_status req)) (ur_size_bytes req)
             (cx_now cx) (a_db a)) \<rparr>)"
    unfolding update_task_def Let_def stmt_task_def poll_map_result
    using sql_update_eq(1) [OF ok st] row up by (simp add: db_exec_eq del: snd_updates)
qed (simp_all add: invalidate_then_def drop_list_then_def cache_update_def poll_map_result del: and_then_act)

definition with_task :: "nat \<Rightarrow> (('r, 'q) app_state, 'f http_reply option) task \<Rightarrow> ('r, 'q, 'f, 'b) conc \<Rightarrow> ('r, 'q, 'f, 'b) conc" where
  "with_task i t s = s\<lparr> cs_flights := (cs_flights s)[i := (cs_flights s ! i)\<lparr> fl_task := t \<rparr>] \<rparr>"

lemma with_task_sel [simp]:
  "cs_app (with_task i t s) = cs_app s" "length (cs_flights (with_task i t s)) = length (cs_flights s)"
  "i < length (cs_flights s) \<Longrightarrow> fl_task (cs_flights (with_task i t s) ! i) = t"
  "j \<noteq> i \<Longrightarrow> cs_flights (with_task i t s) ! j = cs_flights s ! j"
  by (simp_all add: with_task_def)

lemma poll_step:
  "i < length (cs_flights s) \<Longrightarrow> conc_step S (Poll i) s =
   with_app (snd (poll (fl_task (cs_flights s ! i)) (cs_app s)))
     (with_task i (fst (poll (fl_task (cs_flights s ! i)) (cs_app s))) s)"
  by (simp add: with_task_def split_beta Let_def)

text \<open>
  C35: Interleaved readers leave the cache stale. A GET that missed the cache reads the row; before it
  fills the cache, a PATCH of the same row runs to its end, invalidation included; then the GET
  fills the cache with the row it read. Both are answered with success, nothing failed, and from
  then on the owner's GET answers the old row though the PATCH was acknowledged.
\<close>

theorem interleaved_read_leaves_stale_entry:
  assumes ok: "table_ok (a_db (cs_app s))"
    and jk: "j < length (cs_flights s)" "k < length (cs_flights s)" "j \<noteq> k"
    and reader: "fl_task (cs_flights s ! j) = map_result g (get_task L cx c i)"
    and writer: "fl_task (cs_flights s ! k) = map_result h (update_task L cx' c i req)"
    and miss: "cache_get_backup (lb_cache L) (a_cache (cs_app s)) i = None"
    and row: "owned_row i (cl_tenant_id c) (a_db (cs_app s)) = Some b"
    and up: "cx_link cx = Up" "cx_link cx' = Up"
    and stored: "cache_get_backup (lb_cache L) (cache_set_backup (lb_cache L) (Some (a_config (cs_app s)))
      (cache_invalidate_tenant_backups (lb_cache L) (cache_invalidate_backup (lb_cache L) (a_cache (cs_app s)) i)
        (cl_tenant_id c)) b) i = Some b"
  shows "let s' = conc_run S (map Poll [j, j, k, k, k, j, j]) s;
      b' = coalesce_row (map_option status_fmt (ur_status req)) (ur_size_bytes req) (cx_now cx') b
    in fl_task (cs_flights s' ! j) = Done (g (Inr (reply 200 (BackupBody (response_of b))))) \<and>
       fl_task (cs_flights s' ! k) = Done (h (Inr (reply 200 (BackupBody (response_of b'))))) \<and>
       owned_row i (cl_tenant_id c) (a_db (cs_app s')) = Some b' \<and>
       fst (get_backup L cx'' c i (cs_app s')) = Inr (reply 200 (BackupBody (response_of b)))"
proof -
  let ?st = "map_option status_fmt (ur_status req)" and ?a = "cs_app s"
  have st: "case ?st of None \<Rightarrow> True | Some s \<Rightarrow> status_check s" by (simp split: option.splits)
  note upd = sql_update_eq [OF ok st, of i "cl_tenant_id c" "ur_size_bytes req" "cx_now cx'"]
  have tn: "b_tenant_id b = cl_tenant_id c" using owned_row_row_of [OF ok row] by simp
  show ?thesis
    using jk reader writer miss row up stored upd(2) tn ok
    by (simp add: poll_step get_actions patch_actions Let_def get_backup_def del: conc_step.simps snd_updates)
qed

text \<open>
  C36: A request that is given up in the wrong moment leaves the cache stale. When the future of a PATCH
  is dropped after its statement committed (the client went away, or the timeout layer answered
  408), the invalidation never runs: there is no response of the handler, the row has changed, and a
  GET keeps answering the cached old row.
\<close>

theorem dropped_update_leaves_stale_entry:
  assumes ok: "table_ok (a_db (cs_app s))" and k: "k < length (cs_flights s)"
    and writer: "fl_task (cs_flights s ! k) = map_result h (update_task L cx c i req)"
    and cached: "cache_get_backup (lb_cache L) (a_cache (cs_app s)) i = Some b"
    and row: "owned_row i (cl_tenant_id c) (a_db (cs_app s)) = Some b" and up: "cx_link cx = Up"
  shows "let s' = conc_run S [Poll k, Dropped k] s
    in fl_task (cs_flights s' ! k) = Done None \<and>
       owned_row i (cl_tenant_id c) (a_db (cs_app s')) =
         Some (coalesce_row (map_option status_fmt (ur_status req)) (ur_size_bytes req) (cx_now cx) b) \<and>
       fst (get_backup L cx' c i (cs_app s')) = Inr (reply 200 (BackupBody (response_of b)))"
proof -
  let ?st = "map_option status_fmt (ur_status req)"
  have st: "case ?st of None \<Rightarrow> True | Some s \<Rightarrow> status_check s" by (simp split: option.splits)
  have tn: "b_tenant_id b = cl_tenant_id c" using owned_row_row_of [OF ok row] by simp
  have gone: "drop_task (map_result h (invalidate_then L c i rest)) = Done None" for rest
    by (simp add: invalidate_then_def cache_update_def map_result_def drop_task_def)
  show ?thesis
    using k writer cached row up tn ok sql_update_eq(2) [OF ok st, of i "cl_tenant_id c" "ur_size_bytes req" "cx_now cx"]
    by (simp add: poll_step patch_actions gone Let_def get_backup_def del: snd_updates)
qed

section \<open>Witnesses\<close>

text \<open>A request that passed the middlewares is the task of its handler, with the headers to come.\<close>

definition passed :: "rate_limit_info \<Rightarrow> 'f handled \<Rightarrow> 'f http_reply option" where
  "passed info h = map_option (with_rate_headers info) (finish (Some h))"

lemma map_result_comp: "map_result g (map_result h t) = map_result (\<lambda>x. g (h x)) t"
  by (simp add: map_result_def and_then_assoc)

lemma poll_map: "poll (map_result g t) s = (map_result g (fst (poll t s)), snd (poll t s))"
  by (cases t) (simp_all add: map_result_def map_prod_def split_beta)

lemma passes_middlewares:
  assumes i: "i < length (cs_flights s)"
    and req: "fl_task (cs_flights s ! i) = map_result h (request_task L E ck cx rq)"
    and rt: "protected_route E rq = Routed (Inr call)" and t: "handler_task L cx c call = map_result Some t"
    and tok: "bearer_token (lb_auth L) (hq_headers rq) = Inr token"
      "verify_token (lb_auth L) (ck_wall ck) token (jwt_secret (a_config (cs_app s))) = Inr c"
    and lim: "check_and_increment (rate_limit (a_config (cs_app s))) (cl_tenant_id c) (ck_mono ck) (a_counters (cs_app s)) =
      (Inr info, m)"
  shows "let s' = conc_run S [Poll i, Poll i, Poll i] s
    in fl_task (cs_flights s' ! i) = map_result (\<lambda>x. h (passed info x)) t \<and> cs_app s' = (cs_app s)\<lparr> a_counters := m \<rparr> \<and>
       length (cs_flights s') = length (cs_flights s) \<and> (\<forall>j. j \<noteq> i \<longrightarrow> cs_flights s' ! j = cs_flights s ! j)"
  using i req tok lim
  by (simp add: poll_step poll_map request_task_def rt auth_task_def limit_task_def task_action_defs endpoint_task_def t
      map_result_comp passed_def [abs_def] map_prod_def split_beta Let_def del: conc_step.simps)

text \<open>With nobody in between, a flight ends as its task run alone.\<close>

lemma solo_run:
  "i < length (cs_flights s) \<Longrightarrow> steps_le n (fl_task (cs_flights s ! i)) \<Longrightarrow>
   fl_task (cs_flights (conc_run S (replicate n (Poll i)) s) ! i) = Done (fst (run_task (fl_task (cs_flights s ! i)) (cs_app s))) \<and>
   cs_app (conc_run S (replicate n (Poll i)) s) = snd (run_task (fl_task (cs_flights s ! i)) (cs_app s))"
proof (induction n arbitrary: s)
  case 0
  then show ?case by (auto dest!: steps_le_zero)
next
  case (Suc n)
  let ?s = "conc_step S (Poll i) s"
  have "i < length (cs_flights ?s)" "fl_task (cs_flights ?s ! i) = fst (poll (fl_task (cs_flights s ! i)) (cs_app s))"
    "cs_app ?s = snd (poll (fl_task (cs_flights s ! i)) (cs_app s))"
    using Suc.prems(1) by (simp_all add: poll_step del: conc_step.simps)
  with Suc.IH [of ?s] Suc.prems(2) steps_le_poll [OF Suc.prems(2)] show ?case
    by (simp add: run_poll del: conc_step.simps)
qed

definition demo_stack :: "(doc mem_store, doc, doc mem_broker, real, unit) stack" where
  "demo_stack = \<lparr> sv_libs = demo_libs, sv_extract = demo_extractors, sv_contents = mem_contents, sv_settle = mem_tick,
     st_layers = reference_layers None, st_render = [] \<rparr>"

lemma demo_stack_sel [simp]:
  "sv_libs demo_stack = demo_libs" "sv_extract demo_stack = demo_extractors" "sv_contents demo_stack = mem_contents"
  "sv_settle demo_stack = mem_tick" "st_layers demo_stack = reference_layers None" "st_render demo_stack = []"
  by (simp_all add: demo_stack_def)

lemma demo_stack_ok: "stack_ok demo_stack"
proof -
  have "service_ok demo_stack" using demo_service_ok by (simp add: service_ok_def)
  then show ?thesis unfolding stack_ok_def using reference_tower by (auto simp del: demo_service_sel)
qed

text \<open>A small request without preflight headers: the layers only add a header to its answer.\<close>

lemma demo_served:
  assumes "announced_above 10485760 rq = False" "is_preflight rq = False" "hq_path rq \<noteq> [''metrics'']"
  shows "served_task L E (reference_layers None) render ck cx rq =
    map_result (map_option allow_origin) (request_task L E ck cx rq)"
  using assms by (simp add: served_task_def main_router_def create_router_def reference_layers_def)

lemma demo_requests:
  "served_task L E (reference_layers None) render ck cx (demo_get seg) =
     map_result (map_option allow_origin) (request_task L E ck cx (demo_get seg))"
  "served_task L E (reference_layers None) render ck cx ((demo_get seg)\<lparr> hq_method := PATCH \<rparr>) =
     map_result (map_option allow_origin) (request_task L E ck cx ((demo_get seg)\<lparr> hq_method := PATCH \<rparr>))"
  by (rule demo_served; simp add: announced_above_def is_preflight_def demo_get_def api_backups_def)+

lemma demo_startable: "startable demo_stack (demo_app [demo_row 1])"
  by (simp add: startable_def cache_known_def may_row_def may_list_def mem_contents_def empty_store_def)

abbreviation demo_ck :: clocks where
  "demo_ck \<equiv> \<lparr> ck_wall = 0, ck_utc = 0, ck_mono = 0 \<rparr>"

abbreviation demo_m :: job_metrics where
  "demo_m \<equiv> \<lparr> m_success = 0, m_failure = 0 \<rparr>"

definition demo_arrival :: "(doc mem_store, doc mem_broker, real, unit) conc" where
  "demo_arrival = conc_run demo_stack [Arrive demo_ck (demo_cx 1) (demo_get (std_uuid_fmt 1))]
     (conc_start (demo_app [demo_row 1]) demo_m)"

abbreviation demo_events :: "(real, unit) event list" where
  "demo_events \<equiv> Arrive demo_ck (demo_cx 1) (demo_get (std_uuid_fmt 1)) # replicate 9 (Poll 0)"

abbreviation demo_run :: "(doc mem_store, doc mem_broker, real, unit) conc" where
  "demo_run \<equiv> conc_run demo_stack demo_events (conc_start (demo_app [demo_row 1]) demo_m)"

text \<open>The demonstration GET is answered with its row.\<close>

lemma demo_answer:
  obtains fl response where "fl \<in> set (cs_flights demo_run)" "fl_task fl = Done (Some response)"
    "rp_body response = BackupBody (response_of (demo_row 1))"
    "fl_request fl = demo_get (std_uuid_fmt 1)" "fl_clocks fl = demo_ck"
proof -
  obtain response a' where r: "handle_request demo_libs demo_extractors demo_ck (demo_cx 1)
      (demo_get (std_uuid_fmt 1)) (demo_app [demo_row 1]) = (Some response, a')"
    and b: "rp_body response = BackupBody (response_of (demo_row 1))"
    using demo_get_response by auto
  have s: "demo_run = conc_run demo_stack (replicate 9 (Poll 0)) demo_arrival"
    by (simp add: demo_arrival_def)
  have a: "0 < length (cs_flights demo_arrival)" "cs_app demo_arrival = demo_app [demo_row 1]"
    "fl_task (cs_flights demo_arrival ! 0) =
       map_result (map_option allow_origin) (request_task demo_libs demo_extractors demo_ck (demo_cx 1) (demo_get (std_uuid_fmt 1)))"
    "fl_request (cs_flights demo_arrival ! 0) = demo_get (std_uuid_fmt 1)" "fl_clocks (cs_flights demo_arrival ! 0) = demo_ck"
    by (simp_all add: demo_arrival_def demo_requests)
  note f = run_flight [OF a(1), of demo_stack "replicate 9 (Poll 0)", folded s, unfolded a(4,5)]
  have "fl_task (cs_flights demo_run ! 0) = Done (Some (allow_origin response))"
    unfolding s using solo_run [OF a(1), of 9 demo_stack] r
    by (simp add: a(2,3) steps_le_map_result request_task_steps run_request_task)
  moreover have "rp_body (allow_origin response) = BackupBody (response_of (demo_row 1))"
    by (simp add: b decoratesD(2) [OF allow_origin_decorates])
  ultimately show thesis using f nth_mem [OF conjunct1 [OF f]] by (intro that) blast+
qed

lemma interleaved_responses_are_own_rows_witness:
  "\<exists>token c n b. hq_headers (demo_get (std_uuid_fmt 1)) ''Authorization'' = Some (''Bearer '' @ token) \<and>
    verify_token demo_jwt 0 token (jwt_secret dev_config) = Inr c \<and>
    b_tenant_id b = cl_tenant_id c \<and> response_of (demo_row 1) = (response_of b :: real backup_response) \<and> n \<le> 10 \<and>
    b \<in> set (a_db (cs_app (conc_run demo_stack (take n demo_events) (conc_start (demo_app [demo_row 1]) demo_m))))"
proof -
  obtain fl response where f: "fl \<in> set (cs_flights demo_run)" "fl_task fl = Done (Some response)"
    "rp_body response = BackupBody (response_of (demo_row 1))" "fl_request fl = demo_get (std_uuid_fmt 1)" "fl_clocks fl = demo_ck"
    by (rule demo_answer)
  have "response_of (demo_row 1) \<in> set (body_rows (rp_body response))" by (simp add: f(3))
  from interleaved_responses_are_own_rows [OF demo_stack_ok demo_startable f(1,2) this] show ?thesis
    by (simp add: f(4,5))
qed

lemma interleaved_responses_typed_witness:
  "\<exists>rp. rp_body rp = BackupBody (response_of (demo_row 1)) \<and> served_type demo_extractors (demo_get (std_uuid_fmt 1)) (rp :: real http_reply)"
proof -
  obtain fl response where f: "fl \<in> set (cs_flights demo_run)" "fl_task fl = Done (Some response)"
    "rp_body response = BackupBody (response_of (demo_row 1))" "fl_request fl = demo_get (std_uuid_fmt 1)" "fl_clocks fl = demo_ck"
    by (rule demo_answer)
  have "tower_layers (st_layers demo_stack) announced_above (\<lambda>n rq. rq) is_preflight"
    by (simp add: reference_tower)
  from interleaved_responses_typed [OF this f(1,2)] f(3,4) show ?thesis by auto
qed

lemma interleaved_writes_confined_witness:
  "table_ok (a_db (cs_app demo_arrival)) \<and> protected_part (a_config (cs_app demo_arrival)) = protected_part dev_config"
  using interleaved_writes_confined [OF demo_stack_ok demo_startable demo_arrival_def, of 0]
  by (simp add: demo_arrival_def)

text \<open>A GET and a PATCH of the same backup by its owner, both past the middlewares.\<close>

definition demo_patch :: "unit http_request" where
  "demo_patch = (demo_get (std_uuid_fmt 1))\<lparr> hq_method := PATCH \<rparr>"

lemma demo_routes:
  "protected_route demo_extractors (demo_get (std_uuid_fmt 1)) = Routed (Inr (GetBackup 1))"
  "protected_route demo_extractors demo_patch =
     Routed (Inr (UpdateBackup 1 \<lparr> ur_status = Some Failed, ur_size_bytes = None \<rparr>))"
  by (simp_all add: protected_route_def demo_patch_def demo_get_def api_backups_def demo_extractors_def std_parse_fmt)

lemma demo_token_ok:
  "bearer_token demo_jwt (hq_headers (demo_get seg)) = Inr demo_token"
  "hq_headers demo_patch = hq_headers (demo_get (std_uuid_fmt 1))"
  "verify_token demo_jwt 0 demo_token (jwt_secret dev_config) = Inr demo_user"
proof -
  show "bearer_token demo_jwt (hq_headers (demo_get seg)) = Inr demo_token"
    by (rule demo_jwt.bearer_tokenI [OF _ demo_jwt.token_text [OF demo_token_signed] refl]) (simp add: demo_get_def)
  show "verify_token demo_jwt 0 demo_token (jwt_secret dev_config) = Inr demo_user"
    using demo_jwt.decode_encode [OF demo_token_signed, of 0] by (simp add: verify_token_def)
qed (simp add: demo_patch_def)

definition demo_two :: "(doc mem_store, doc mem_broker, real, unit) conc" where
  "demo_two = conc_run demo_stack
     ([Arrive demo_ck (demo_cx 1) (demo_get (std_uuid_fmt 1)), Arrive demo_ck (demo_cx 2) demo_patch] @
      [Poll 0, Poll 0, Poll 0] @ [Poll 1, Poll 1, Poll 1])
     (conc_start (demo_app [demo_row 1]) demo_m)"

lemma demo_two:
  "length (cs_flights demo_two) = 2"
  "\<exists>g h m. fl_task (cs_flights demo_two ! 0) = map_result g (get_task demo_libs (demo_cx 1) demo_user 1) \<and>
     fl_task (cs_flights demo_two ! 1) =
       map_result h (update_task demo_libs (demo_cx 2) demo_user 1 \<lparr> ur_status = Some Failed, ur_size_bytes = None \<rparr>) \<and>
     cs_app demo_two = (demo_app [demo_row 1])\<lparr> a_counters := m \<rparr>"
proof -
  let ?s0 = "conc_run demo_stack [Arrive demo_ck (demo_cx 1) (demo_get (std_uuid_fmt 1)), Arrive demo_ck (demo_cx 2) demo_patch]
     (conc_start (demo_app [demo_row 1]) demo_m) :: (doc mem_store, doc mem_broker, real, unit) conc"
  let ?s1 = "conc_run demo_stack [Poll 0, Poll 0, Poll 0] ?s0"
  have lim: "\<exists>info m. check_and_increment (rate_limit dev_config) demo_tenant 0 cs = (Inr info, m) \<and> m demo_tenant = Some (n + 1, 0)"
    if "cs demo_tenant = None \<and> n = 0 \<or> cs demo_tenant = Some (n, 0) \<and> n = 1" for cs n
    using that by (auto simp: check_and_increment_def Let_def dev_config_def default_rate_limit_def window_def word_less_nat_alt)
  obtain i1 m1 where l1: "check_and_increment (rate_limit dev_config) demo_tenant 0 Map.empty = (Inr i1, m1)"
    "m1 demo_tenant = Some (1, 0)" using lim [of Map.empty 0] by auto
  obtain i2 m2 where l2: "check_and_increment (rate_limit dev_config) demo_tenant 0 m1 = (Inr i2, m2)"
    using lim [of m1 1] l1(2) by auto
  have r0: "fl_task (cs_flights ?s0 ! 0) = map_result (map_option allow_origin)
      (request_task demo_libs demo_extractors demo_ck (demo_cx 1) (demo_get (std_uuid_fmt 1)))"
    by (simp add: demo_requests)
  have p1: "fl_task (cs_flights ?s1 ! 0) = map_result (\<lambda>x. map_option allow_origin (passed i1 x)) (get_task demo_libs (demo_cx 1) demo_user 1)"
    "cs_app ?s1 = (demo_app [demo_row 1])\<lparr> a_counters := m1 \<rparr>" "length (cs_flights ?s1) = 2"
    "cs_flights ?s1 ! 1 = cs_flights ?s0 ! 1"
    using passes_middlewares [OF _ r0, of "GetBackup 1"
        demo_user "get_task demo_libs (demo_cx 1) demo_user 1" demo_token i1 m1 demo_stack] l1(1)
    by (simp_all add: demo_routes demo_token_ok demo_user_tenant Let_def)
  have r1: "fl_task (cs_flights ?s1 ! 1) =
      map_result (map_option allow_origin) (request_task demo_libs demo_extractors demo_ck (demo_cx 2) demo_patch)"
    unfolding p1(4) by (simp add: demo_patch_def demo_requests)
  have two: "demo_two = conc_run demo_stack [Poll 1, Poll 1, Poll 1] ?s1"
    by (simp only: demo_two_def conc_run_simps(3))
  have i1: "1 < length (cs_flights ?s1)" unfolding p1(3) by simp
  have rt: "protected_route demo_extractors demo_patch =
     Routed (Inr (UpdateBackup 1 \<lparr> ur_status = Some Failed, ur_size_bytes = None \<rparr>))"
    by (rule demo_routes(2))
  have ht: "handler_task demo_libs (demo_cx 2) demo_user (UpdateBackup 1 \<lparr> ur_status = Some Failed, ur_size_bytes = None \<rparr>) =
      map_result Some (update_task demo_libs (demo_cx 2) demo_user 1 \<lparr> ur_status = Some Failed, ur_size_bytes = None \<rparr>)"
    by simp
  have tok: "bearer_token (lb_auth demo_libs) (hq_headers demo_patch) = Inr demo_token"
    "verify_token (lb_auth demo_libs) (ck_wall demo_ck) demo_token (jwt_secret (a_config (cs_app ?s1))) = Inr demo_user"
    unfolding p1(2) by (simp_all add: demo_token_ok)
  have l3: "check_and_increment (rate_limit (a_config (cs_app ?s1))) (cl_tenant_id demo_user) (ck_mono demo_ck)
      (a_counters (cs_app ?s1)) = (Inr i2, m2)"
    unfolding p1(2) using l2 by (simp add: demo_user_tenant)
  note p2 = passes_middlewares [OF i1 r1 rt ht tok l3, of demo_stack, folded two, unfolded Let_def]
  have p3: "cs_app demo_two = (demo_app [demo_row 1])\<lparr> a_counters := m2 \<rparr>" "length (cs_flights demo_two) = 2"
    "cs_flights demo_two ! 0 = cs_flights ?s1 ! 0"
    using p2 p1(2,3) by auto
  show "length (cs_flights demo_two) = 2" by (rule p3(2))
  show "\<exists>g h m. fl_task (cs_flights demo_two ! 0) = map_result g (get_task demo_libs (demo_cx 1) demo_user 1) \<and>
     fl_task (cs_flights demo_two ! 1) =
       map_result h (update_task demo_libs (demo_cx 2) demo_user 1 \<lparr> ur_status = Some Failed, ur_size_bytes = None \<rparr>) \<and>
     cs_app demo_two = (demo_app [demo_row 1])\<lparr> a_counters := m \<rparr>"
    using p1(1) conjunct1 [OF p2] p3(1,3) by metis
qed

lemma mem_stored:
  "cache_ttl (Some config) \<noteq> 0 \<Longrightarrow> cache_get_backup mem_libs (cache_set_backup mem_libs (Some config) (Some r) b) (b_id b) = Some b"
  by (simp add: cache_get_backup_def cache_set_backup_def mem_set_contents ok_def del: mem_ops(2,3))

lemma demo_ttl: "cache_ttl (Some dev_config) \<noteq> 0"
  by (simp add: cache_ttl_def dev_config_def)

lemma demo_cache:
  "cache_get_backup mem_libs (Some empty_store) i = None"
  "cache_get_backup mem_libs (cache_set_backup mem_libs (Some dev_config)
     (cache_invalidate_tenant_backups mem_libs (cache_invalidate_backup mem_libs (Some empty_store) i) tn) (demo_row 1)) 1 =
   Some (demo_row 1)"
proof -
  show "cache_get_backup mem_libs (cache_set_backup mem_libs (Some dev_config)
     (cache_invalidate_tenant_backups mem_libs (cache_invalidate_backup mem_libs (Some empty_store) i) tn) (demo_row 1)) 1 =
   Some (demo_row 1)"
    using mem_stored [OF demo_ttl, where b = "demo_row 1"]
    by (simp add: cache_invalidate_backup_def cache_invalidate_tenant_backups_def)
qed (simp add: cache_get_backup_def mem_contents_def empty_store_def ok_def)

lemma demo_owned: "owned_row 1 (cl_tenant_id demo_user) [demo_row 1] = Some (demo_row 1)"
  by (simp add: owned_row_def owned_def demo_user_tenant)

lemma interleaved_read_leaves_stale_entry_witness:
  "fst (get_backup demo_libs (demo_cx 3) demo_user 1
     (cs_app (conc_run demo_stack (map Poll [0, 0, 1, 1, 1, 0, 0]) demo_two))) =
   (Inr (reply 200 (BackupBody (response_of (demo_row 1)))) :: real handled)"
proof -
  obtain g h m where
    f: "fl_task (cs_flights demo_two ! 0) = map_result g (get_task demo_libs (demo_cx 1) demo_user 1)"
       "fl_task (cs_flights demo_two ! 1) =
          map_result h (update_task demo_libs (demo_cx 2) demo_user 1 \<lparr> ur_status = Some Failed, ur_size_bytes = None \<rparr>)"
    and a: "cs_app demo_two = (demo_app [demo_row 1])\<lparr> a_counters := m \<rparr>"
    using demo_two(2) by blast
  have n: "0 < length (cs_flights demo_two)" "1 < length (cs_flights demo_two)" "(0::nat) \<noteq> 1"
    by (simp_all add: demo_two(1))
  have e: "table_ok (a_db (cs_app demo_two))"
    "cache_get_backup (lb_cache demo_libs) (a_cache (cs_app demo_two)) 1 = None"
    "owned_row 1 (cl_tenant_id demo_user) (a_db (cs_app demo_two)) = Some (demo_row 1)"
    "cx_link (demo_cx 1) = Up" "cx_link (demo_cx 2) = Up"
    "cache_get_backup (lb_cache demo_libs) (cache_set_backup (lb_cache demo_libs) (Some (a_config (cs_app demo_two)))
      (cache_invalidate_tenant_backups (lb_cache demo_libs)
        (cache_invalidate_backup (lb_cache demo_libs) (a_cache (cs_app demo_two)) 1) (cl_tenant_id demo_user)) (demo_row 1)) 1 =
     Some (demo_row 1)"
    unfolding a by (simp_all add: demo_cache demo_owned)
  from interleaved_read_leaves_stale_entry [OF e(1) n f e(2-6), of demo_stack "demo_cx 3"]
  show ?thesis unfolding Let_def by blast
qed

text \<open>The GET first, so that the row is cached; then the PATCH is dropped.\<close>

lemma dropped_update_leaves_stale_entry_witness:
  "fst (get_backup demo_libs (demo_cx 3) demo_user 1
     (cs_app (conc_run demo_stack [Poll 1, Dropped 1] (conc_run demo_stack (map Poll [0, 0, 0, 0]) demo_two)))) =
   (Inr (reply 200 (BackupBody (response_of (demo_row 1)))) :: real handled)"
proof -
  let ?s = "conc_run demo_stack (map Poll [0, 0, 0, 0]) demo_two"
  obtain g h m where
    f: "fl_task (cs_flights demo_two ! 0) = map_result g (get_task demo_libs (demo_cx 1) demo_user 1)"
       "fl_task (cs_flights demo_two ! 1) =
          map_result h (update_task demo_libs (demo_cx 2) demo_user 1 \<lparr> ur_status = Some Failed, ur_size_bytes = None \<rparr>)"
    and a: "cs_app demo_two = (demo_app [demo_row 1])\<lparr> a_counters := m \<rparr>"
    using demo_two(2) by blast
  have r: "length (cs_flights ?s) = 2" "cs_flights ?s ! 1 = cs_flights demo_two ! 1"
    "cs_app ?s = (demo_app [demo_row 1])\<lparr> a_counters := m,
       a_cache := cache_set_backup mem_libs (Some dev_config) (Some empty_store) (demo_row 1) \<rparr>"
    by (simp_all add: poll_step demo_two(1) f(1) a get_actions demo_cache demo_owned del: conc_step.simps)
  have k: "1 < length (cs_flights ?s)" unfolding r(1) by simp
  have w: "fl_task (cs_flights ?s ! 1) =
      map_result h (update_task demo_libs (demo_cx 2) demo_user 1 \<lparr> ur_status = Some Failed, ur_size_bytes = None \<rparr>)"
    unfolding r(2) by (rule f(2))
  have e: "table_ok (a_db (cs_app ?s))"
    "cache_get_backup (lb_cache demo_libs) (a_cache (cs_app ?s)) 1 = Some (demo_row 1)"
    "owned_row 1 (cl_tenant_id demo_user) (a_db (cs_app ?s)) = Some (demo_row 1)" "cx_link (demo_cx 2) = Up"
    unfolding r(3) using mem_stored [OF demo_ttl, of empty_store "demo_row 1"] by (simp_all add: demo_owned)
  from dropped_update_leaves_stale_entry [OF e(1) k w e(2-4), of demo_stack "demo_cx 3"]
  show ?thesis unfolding Let_def by blast
qed

end
