(* ===== verification/Linearization.thy ===== *)
theory Linearization
  imports Interleavings
begin

text \<open>
  The interleaved service against a service that is never preempted. To every event of a run the
  theory assigns what it commits: the statement of a request counts as the whole handler, a call of
  the worker as itself, everything else as nothing. Executed one after the other, complete
  handlers and calls bring the table and the counters to where the interleaving brings them.
\<close>

section \<open>Sequential executions\<close>

datatype 'f commit =
    Served nat req_ctx claims rest_call
  | StatusCommit grpc_ctx status_update
  | ResultCommit grpc_ctx "'f processing_result"

fun commit_step ::
    "('r, 'j, 'q, 'f, 'b) stack \<Rightarrow> 'f commit \<Rightarrow> ('r, 'q) app_state \<times> job_metrics \<Rightarrow> ('r, 'q) app_state \<times> job_metrics" where
  "commit_step S (Served i cx c call) (a, m) = (snd (run_handler (sv_libs S) cx c call a), m)"
| "commit_step S (StatusCommit X msg) (a, m) = (a\<lparr> a_db := snd (update_status X msg (a_db a)) \<rparr>, m)"
| "commit_step S (ResultCommit X res) (a, m) =
     (let (r, t, m) = report_result X res (a_db a, m) in (a\<lparr> a_db := t \<rparr>, m))"

definition sequential ::
    "('r, 'j, 'q, 'f, 'b) stack \<Rightarrow> 'f commit list \<Rightarrow> ('r, 'q) app_state \<times> job_metrics \<Rightarrow> ('r, 'q) app_state \<times> job_metrics" where
  "sequential S ops am = fold (commit_step S) ops am"

text \<open>What an event may commit: an action of a request at most that request, a worker's call itself.\<close>

fun commits_at :: "('f, 'b) event \<Rightarrow> 'f commit list \<Rightarrow> bool" where
  "commits_at (Poll i) ops = (\<forall>op \<in> set ops. \<exists>cx c call. ops = [op] \<and> op = Served i cx c call)"
| "commits_at (StatusCall X msg) ops = (ops = [StatusCommit X msg])"
| "commits_at (ResultCall X res) ops = (ops = [ResultCommit X res])"
| "commits_at (Arrive ck cx rq) ops = (ops = [])"
| "commits_at (Dropped i) ops = (ops = [])"
| "commits_at (Reloaded u) ops = (ops = [])"
| "commits_at Settled ops = (ops = [])"

fun served_flight :: "'f commit \<Rightarrow> nat list" where
  "served_flight (Served i cx c call) = [i]"
| "served_flight (StatusCommit X msg) = []"
| "served_flight (ResultCommit X res) = []"

definition served :: "'f commit list \<Rightarrow> nat list" where
  "served ops = concat (map served_flight ops)"

text \<open>A handler committed is the one its request is routed to, for the claims its token verifies to.\<close>

fun commit_ok ::
    "('r, 'j, 'q, 'f, 'b) stack \<Rightarrow> app_config \<Rightarrow> ('r, 'q, 'f, 'b) flight list \<Rightarrow> 'f commit \<Rightarrow> bool" where
  "commit_ok S config fls (Served i cx c call) =
     (i < length fls \<and> cx = fl_ctx (fls ! i) \<and>
      admits (lb_auth (sv_libs S)) config (ck_wall (fl_clocks (fls ! i))) (hq_headers (fl_request (fls ! i))) c \<and>
      routes_to (sv_extract S) (fl_request (fls ! i)) call)"
| "commit_ok S config fls (StatusCommit X msg) = True"
| "commit_ok S config fls (ResultCommit X res) = True"

lemma served_simps [simp]: "served [] = []" "served (ops @ ops') = served ops @ served ops'" "served [op] = served_flight op"
  by (simp_all add: served_def)

lemma sequential_simps [simp]:
  "sequential S [] am = am" "sequential S (ops @ ops') am = sequential S ops' (sequential S ops am)"
  "sequential S [op] am = commit_step S op am"
  by (simp_all add: sequential_def)

text \<open>The effect of a commit depends on the table and the counters only.\<close>

lemma run_handler_db_cong:
  "a_db a = a_db a' \<Longrightarrow> a_db (snd (run_handler L cx c call a)) = a_db (snd (run_handler L cx c call a'))"
  by (cases call) (simp_all add: create_db update_db delete_db)

lemma commit_step_cong:
  "map_prod a_db id am = map_prod a_db id am' \<Longrightarrow>
   map_prod a_db id (commit_step S op am) = map_prod a_db id (commit_step S op am')"
  by (cases am; cases am'; cases op) (auto simp: split_beta intro: run_handler_db_cong)

section \<open>Requests write once\<close>

lemma served_task_writes_once:
  assumes W: "tower_layers W too_large limited preflight"
  shows "writes_once a_db (served_task L E W render ck cx rq)"
proof -
  let ?routes = "request_task L E ck cx"
  have "writes_once a_db (tower_layers.limited_routes too_large limited ?routes rq)"
    by (simp add: tower_layers.limited_routes_def [OF W] request_writes_once)
  then have "writes_once a_db (create_router W ?routes rq)"
    by (cases rule: tower_layers.create_router_cases [OF W, of rq ?routes])
      (auto intro!: map_result_writes(2) writes_once_cut_task)
  then show ?thesis by (simp add: served_task_def main_router_def)
qed

lemma drop_task_writes:
  "quiet v t \<Longrightarrow> quiet v (drop_task t)" "writes_once v t \<Longrightarrow> writes_once v (drop_task t)"
  by (cases t; simp add: drop_task_def)+

section \<open>Commits explain the run\<close>

text \<open>A flight that has committed writes no more; one that has not writes once at most.\<close>

definition flights_write :: "nat list \<Rightarrow> ('r, 'q, 'f, 'b) flight list \<Rightarrow> bool" where
  "flights_write is fls =
     (\<forall>i < length fls. writes_once a_db (fl_task (fls ! i)) \<and> (i \<in> set is \<longrightarrow> quiet a_db (fl_task (fls ! i))))"

definition explained ::
    "('r, 'j, 'q, 'f, 'b) stack \<Rightarrow> ('r, 'q) app_state \<Rightarrow> job_metrics \<Rightarrow> ('r, 'q, 'f, 'b) conc \<Rightarrow> 'f commit list \<Rightarrow> bool" where
  "explained S a m s ops =
     (distinct (served ops) \<and> list_all (commit_ok S (a_config a) (cs_flights s)) ops \<and>
      flights_write (served ops) (cs_flights s) \<and>
      (a_db (cs_app s), cs_metrics s) = map_prod a_db id (sequential S ops (a, m)))"

lemma commit_ok_step:
  "commit_ok S config (cs_flights s) op \<Longrightarrow> commit_ok S config (cs_flights (conc_step S ev s)) op"
proof (cases op)
  case (Served i cx c call)
  assume ok: "commit_ok S config (cs_flights s) op"
  with Served have i: "i < length (cs_flights s)" by simp
  with ok Served step_flight [OF i, of S ev] length_flights [of s S ev] show ?thesis by simp
qed simp_all

lemma commits_ok_step:
  "list_all (commit_ok S config (cs_flights s)) ops \<Longrightarrow> list_all (commit_ok S config (cs_flights (conc_step S ev s))) ops"
  by (erule list.pred_mono_strong) (rule commit_ok_step)

text \<open>A step that writes nothing keeps what is known of the flights.\<close>

lemma flights_write_step:
  assumes W: "tower_layers (st_layers S) too_large limited preflight"
    and w: "flights_write is (cs_flights s)"
    and p: "\<And>i. ev = Poll i \<Longrightarrow> i < length (cs_flights s) \<Longrightarrow>
      a_db (snd (poll (fl_task (cs_flights s ! i)) (cs_app s))) = a_db (cs_app s)"
    and old: "\<forall>i \<in> set is. i < length (cs_flights s)"
  shows "flights_write is (cs_flights (conc_step S ev s))"
  unfolding flights_write_def
proof (intro allI impI)
  fix i
  let ?fls = "cs_flights (conc_step S ev s)"
  assume i: "i < length ?fls"
  show "writes_once a_db (fl_task (?fls ! i)) \<and> (i \<in> set is \<longrightarrow> quiet a_db (fl_task (?fls ! i)))"
  proof (cases "i < length (cs_flights s)")
    case True
    with w have t: "writes_once a_db (fl_task (cs_flights s ! i))" "i \<in> set is \<longrightarrow> quiet a_db (fl_task (cs_flights s ! i))"
      by (auto simp: flights_write_def)
    have "writes_once a_db (fst (poll (fl_task (cs_flights s ! i)) (cs_app s)))"
      using writes_once_poll [OF t(1)] quiet_once by blast
    with t True show ?thesis
      by (auto simp: step_task drop_task_writes dest: quiet_poll)
  next
    case False
    with i old obtain ck cx rq where "ev = Arrive ck cx rq" "i = length (cs_flights s)" "i \<notin> set is"
      by (cases ev) (auto simp: Let_def split: prod.splits if_splits)
    then show ?thesis by (simp add: served_task_writes_once [OF W])
  qed
qed

lemma served_old: "list_all (commit_ok S config fls) ops \<Longrightarrow> \<forall>i \<in> set (served ops). i < length fls"
proof (induction ops)
  case (Cons op ops)
  then show ?case by (cases op) (auto simp: served_def)
qed simp

lemma explained_old: "explained S a m s ops \<Longrightarrow> \<forall>i \<in> set (served ops). i < length (cs_flights s)"
  unfolding explained_def by (rule served_old) blast

lemma explained_commit:
  assumes "explained S a m s ops"
  shows "map_prod a_db id (commit_step S op (cs_app s, cs_metrics s)) =
    map_prod a_db id (sequential S (ops @ [op]) (a, m))"
proof -
  have "map_prod a_db id (cs_app s, cs_metrics s) = map_prod a_db id (sequential S ops (a, m))"
    using assms by (simp add: explained_def)
  from commit_step_cong [OF this] show ?thesis by simp
qed

text \<open>One step: nothing is committed, or the statement of a flight, or a call of the worker.\<close>

lemma silent_step:
  assumes W: "tower_layers (st_layers S) too_large limited preflight" and ex: "explained S a m s ops"
    and db: "a_db (cs_app (conc_step S ev s)) = a_db (cs_app s)" "cs_metrics (conc_step S ev s) = cs_metrics s"
  shows "explained S a m (conc_step S ev s) ops"
proof -
  have "flights_write (served ops) (cs_flights (conc_step S ev s))"
    using ex db by (intro flights_write_step [OF W _ _ explained_old [OF ex]]) (auto simp: explained_def Let_def split_beta)
  with ex db show ?thesis by (simp add: explained_def commits_ok_step)
qed

lemma call_step:
  assumes W: "tower_layers (st_layers S) too_large limited preflight" and ex: "explained S a m s ops"
    and ev: "ev = StatusCall X msg \<and> op = StatusCommit X msg \<or> ev = ResultCall X res \<and> op = ResultCommit X res"
  shows "explained S a m (conc_step S ev s) (ops @ [op])"
proof -
  have w: "flights_write (served ops) (cs_flights (conc_step S ev s))"
    using ex ev by (intro flights_write_step [OF W _ _ explained_old [OF ex]]) (auto simp: explained_def)
  have s: "served (ops @ [op]) = served ops" and o: "commit_ok S (a_config a) fls op" for fls
    using ev by auto
  have "(a_db (cs_app (conc_step S ev s)), cs_metrics (conc_step S ev s)) =
      map_prod a_db id (commit_step S op (cs_app s, cs_metrics s))"
    using ev by (auto simp: split_beta)
  also have "\<dots> = map_prod a_db id (sequential S (ops @ [op]) (a, m))"
    by (rule explained_commit [OF ex])
  finally show ?thesis
    using ex w o unfolding explained_def s by (simp add: commits_ok_step)
qed

lemma commit_step_flight:
  assumes S: "stack_ok S" and ok: "conc_ok S (a_config a) s" and ex: "explained S a m s ops"
    and i: "i < length (cs_flights s)" and new: "a_db (cs_app (conc_step S (Poll i) s)) \<noteq> a_db (cs_app s)"
  shows "\<exists>cx c call. explained S a m (conc_step S (Poll i) s) (ops @ [Served i cx c call])"
proof -
  let ?fl = "cs_flights s ! i" and ?s = "conc_step S (Poll i) s"
  obtain tl lim pf where W: "tower_layers (st_layers S) tl lim pf" using S by (auto simp: stack_ok_def)
  have t: "writes_once a_db (fl_task ?fl)" "i \<in> set (served ops) \<longrightarrow> quiet a_db (fl_task ?fl)"
    using ex i by (auto simp: explained_def flights_write_def)
  have app: "cs_app ?s = snd (poll (fl_task ?fl) (cs_app s))" using i by (simp add: poll_step del: conc_step.simps)
  have fresh: "i \<notin> set (served ops)" and q: "quiet a_db (fst (poll (fl_task ?fl) (cs_app s)))"
    using t new quiet_poll writes_once_poll [OF t(1), of "cs_app s"] unfolding app by metis+
  from poll_ok [OF ok i] new obtain c call where
    g: "admits (lb_auth (sv_libs S)) (a_config a) (ck_wall (fl_clocks ?fl)) (hq_headers (fl_request ?fl)) c"
      "routes_to (sv_extract S) (fl_request ?fl) call" "handler_step (sv_libs S) (fl_ctx ?fl) c call (cs_app s) (cs_app ?s)"
    by (auto simp: request_confined_def)
  let ?op = "Served i (fl_ctx ?fl) c call"
  have n: "length (cs_flights ?s) = length (cs_flights s)" "cs_metrics ?s = cs_metrics s"
    using i by (simp_all add: Let_def split_beta)
  have w: "flights_write (served (ops @ [?op])) (cs_flights ?s)"
    unfolding flights_write_def n
  proof (intro allI impI)
    fix j
    assume j: "j < length (cs_flights s)"
    with ex have "writes_once a_db (fl_task (cs_flights s ! j)) \<and> (j \<in> set (served ops) \<longrightarrow> quiet a_db (fl_task (cs_flights s ! j)))"
      by (simp add: explained_def flights_write_def)
    with q quiet_once [OF q] j show "writes_once a_db (fl_task (cs_flights ?s ! j)) \<and>
        (j \<in> set (served (ops @ [?op])) \<longrightarrow> quiet a_db (fl_task (cs_flights ?s ! j)))"
      by (auto simp: step_task simp del: conc_step.simps)
  qed
  have "commit_ok S (a_config a) (cs_flights s) ?op" using g i by simp
  then have o: "list_all (commit_ok S (a_config a) (cs_flights ?s)) (ops @ [?op])"
    using ex commit_ok_step commits_ok_step by (fastforce simp: explained_def simp del: conc_step.simps commit_ok.simps)
  have "(a_db (cs_app ?s), cs_metrics ?s) = map_prod a_db id (commit_step S ?op (cs_app s, cs_metrics s))"
    using g(3) new n(2) by (simp add: handler_step_def)
  also have "\<dots> = map_prod a_db id (sequential S (ops @ [?op]) (a, m))"
    by (rule explained_commit [OF ex])
  finally have "explained S a m ?s (ops @ [?op])"
    using ex fresh w o by (simp add: explained_def del: conc_step.simps)
  then show ?thesis by blast
qed

section \<open>The refinement\<close>

lemma explained_start: "explained S a m (conc_start a m) []"
  by (simp add: explained_def flights_write_def)

lemma conc_step_explained:
  assumes S: "stack_ok S" and ok: "conc_ok S (a_config a) s" and ex: "explained S a m s ops"
  shows "\<exists>ops'. commits_at ev ops' \<and> explained S a m (conc_step S ev s) (ops @ ops')"
proof -
  obtain tl lim pf where W: "tower_layers (st_layers S) tl lim pf" using S by (auto simp: stack_ok_def)
  note silent = silent_step [OF W ex, of ev]
  show ?thesis
  proof (cases ev)
    case (Poll i)
    show ?thesis
    proof (cases "a_db (cs_app (conc_step S ev s)) = a_db (cs_app s)")
      case True
      have "cs_metrics (conc_step S ev s) = cs_metrics s" by (simp add: Poll Let_def split_beta)
      from silent [OF True this] Poll show ?thesis by (intro exI [of _ "[]"]) simp
    next
      case False
      then have "i < length (cs_flights s)" by (auto simp: Poll split: if_splits)
      from commit_step_flight [OF S ok ex this] False Poll obtain cx c call
        where "explained S a m (conc_step S ev s) (ops @ [Served i cx c call])" by blast
      then show ?thesis by (intro exI [of _ "[Served i cx c call]"]) (simp add: Poll)
    qed
  next
    case (StatusCall X msg)
    with call_step [OF W ex, of ev X msg] show ?thesis by (intro exI [of _ "[StatusCommit X msg]"]) simp
  next
    case (ResultCall X res)
    with call_step [OF W ex, where ev = ev] show ?thesis by (intro exI [of _ "[ResultCommit X res]"]) simp
  next
    case (Arrive ck cx rq)
    then show ?thesis using silent by (intro exI [of _ "[]"]) simp
  next
    case (Dropped i)
    then show ?thesis using silent by (intro exI [of _ "[]"]) (simp add: Let_def)
  next
    case (Reloaded u)
    then show ?thesis using silent by (intro exI [of _ "[]"]) (simp add: with_config_mut_def)
  next
    case Settled
    then show ?thesis using silent by (intro exI [of _ "[]"]) (simp add: settle_app_def)
  qed
qed

lemma conc_run_explained:
  assumes S: "stack_ok S" and start: "startable S a"
  shows "\<exists>opss. list_all2 commits_at evs opss \<and> explained S a m (conc_run S evs (conc_start a m)) (concat opss)"
proof (induction evs rule: rev_induct)
  case Nil
  then show ?case by (simp add: explained_start)
next
  case (snoc ev evs)
  then obtain opss where o: "list_all2 commits_at evs opss"
    "explained S a m (conc_run S evs (conc_start a m)) (concat opss)" by blast
  from conc_step_explained [OF S conc_run_start_ok [OF S start] o(2)] obtain ops'
    where "commits_at ev ops'"
      "explained S a m (conc_step S ev (conc_run S evs (conc_start a m))) (concat opss @ ops')" by blast
  with o(1) show ?case
    by (intro exI [of _ "opss @ [ops']"]) (simp add: list_all2_appendI)
qed

text \<open>
  C2: Every interleaving is explained by a sequential service. Whatever requests are in flight at once
  and wherever they are preempted, dropped or cut off: the commits of the events, executed one
  after the other, each a complete handler or a complete call of the worker, take the table and
  the job counters of the start to those of the interleaving. Every request commits once at most, at
  one of its own actions, as the handler it is routed to and for the claims its token verifies to;
  every call of the worker commits where it occurs.
\<close>

theorem interleavings_are_serializable:
  assumes S: "stack_ok S" and start: "startable S a" and s: "s = conc_run S evs (conc_start a m)"
  shows "\<exists>opss. list_all2 commits_at evs opss \<and> distinct (served (concat opss)) \<and>
    list_all (commit_ok S (a_config a) (cs_flights s)) (concat opss) \<and>
    (a_db (cs_app s), cs_metrics s) = map_prod a_db id (sequential S (concat opss) (a, m))"
  using conc_run_explained [OF S start, of evs m] by (auto simp: s explained_def)

text \<open>On the run of a GET and a PATCH of the same row whose actions interleave.\<close>

lemma interleavings_are_serializable_witness:
  "\<exists>ops. distinct (served ops) \<and>
    a_db (cs_app (conc_run demo_stack [Arrive demo_ck (demo_cx 1) (demo_get (std_uuid_fmt 1)), Arrive demo_ck (demo_cx 2) demo_patch,
        Poll 0, Poll 1, Poll 1, Poll 0, Poll 1, Poll 1] (conc_start (demo_app [demo_row 1]) demo_m))) =
    a_db (fst (sequential demo_stack ops (demo_app [demo_row 1], demo_m)))"
  using interleavings_are_serializable [OF demo_stack_ok demo_startable refl,
      of "[Arrive demo_ck (demo_cx 1) (demo_get (std_uuid_fmt 1)), Arrive demo_ck (demo_cx 2) demo_patch,
        Poll 0, Poll 1, Poll 1, Poll 0, Poll 1, Poll 1]"]
  by (metis (no_types, lifting) fst_conv fst_map_prod)

end
