(* ===== verification/Migrations.thy ===== *)
theory Migrations
  imports Backup_Table Cache_Layer Jobs App
begin

text \<open>
  \<^verbatim>\<open>crates/backup-service/src/db.rs\<close> with the script \<^verbatim>\<open>migrations/001_create_backups.sql\<close>, and
  the part of \<^verbatim>\<open>main.rs\<close> that builds the shared state from the environment. The schema is what the
  catalogue says exists. The driver prepares the text of a \<^verbatim>\<open>sqlx::query\<close>, so every statement goes through
  the extended protocol, in which PostgreSQL refuses a text of more than one command.
\<close>

section \<open>The schema\<close>

datatype sql_command =
    CreateExtension string
  | CreateTable string
  | CreateIndex string string

record schema =
  sc_objects :: "sql_command set"
  sc_versions :: "(i64 \<times> string \<times> bool) list"

definition script_001 :: "sql_command list" where
  "script_001 =
     [CreateExtension ''pgcrypto'',
      CreateTable ''backups'',
      CreateIndex ''idx_backups_tenant'' ''tenant_id'',
      CreateIndex ''idx_backups_status'' ''status'',
      CreateIndex ''idx_backups_created'' ''created_at DESC'',
      CreateIndex ''idx_backups_tenant_status'' ''tenant_id, status'']"

text \<open>
  Every command says \<^verbatim>\<open>IF NOT EXISTS\<close>. A text of several commands cannot be prepared.
\<close>

definition run_script :: "sql_command list \<Rightarrow> schema \<Rightarrow> (pg_error + unit) \<times> schema" where
  "run_script cmds s =
     (if 1 < length cmds then (Inl (PgConnection ''cannot insert multiple commands into a prepared statement''), s)
      else (Inr (), s\<lparr> sc_objects := sc_objects s \<union> set cmds \<rparr>))"

definition applied_versions :: "schema \<Rightarrow> (pg_error + i64 set) \<times> schema" where
  "applied_versions s = (Inr (fst ` set (filter (\<lambda>v. snd (snd v)) (sc_versions s))), s)"

definition record_version :: "i64 \<Rightarrow> string \<Rightarrow> schema \<Rightarrow> (pg_error + unit) \<times> schema" where
  "record_version v d s =
     (if v \<in> fst ` set (sc_versions s) then (Inl PgUniqueViolation, s)
      else (Inr (), s\<lparr> sc_versions := sc_versions s @ [(v, d, True)] \<rparr>))"

text \<open>\<^verbatim>\<open>run_migrations\<close>; the four links are the fates of its statements.\<close>

definition run_migrations :: "link \<times> link \<times> link \<times> link \<Rightarrow> schema \<Rightarrow> (pg_error + unit) \<times> schema" where
  "run_migrations links s =
     (case links of (l1, l2, l3, l4) \<Rightarrow>
       (case pg_exec l1 (run_script [CreateTable ''_sqlx_migrations'']) s of
          (Inl e, s) \<Rightarrow> (Inl e, s)
        | (Inr _, s) \<Rightarrow>
       (case pg_exec l2 applied_versions s of
          (Inl e, s) \<Rightarrow> (Inl e, s)
        | (Inr applied, s) \<Rightarrow>
            if 1 \<notin> applied
            then (case pg_exec l3 (run_script script_001) s of
                    (Inl e, s) \<Rightarrow> (Inl e, s)
                  | (Inr _, s) \<Rightarrow> pg_exec l4 (record_version 1 ''create_backups'') s)
            else (Inr (), s))))"

section \<open>Start-up\<close>

text \<open>The options of the connection pool, times in seconds; connecting is sqlx's.\<close>

record pool_options =
  po_max_connections :: nat
  po_min_connections :: nat
  po_acquire_timeout :: nat
  po_idle_timeout :: nat

definition create_pool :: "(pool_options \<Rightarrow> string \<Rightarrow> pg_error + unit) \<Rightarrow> string \<Rightarrow> pg_error + unit" where
  "create_pool connect url =
     connect \<lparr> po_max_connections = 20, po_min_connections = 2, po_acquire_timeout = 5, po_idle_timeout = 600 \<rparr>
       url"

text \<open>
  The environment's answers to the connections \<^verbatim>\<open>main\<close> opens, in its order; the pool's connection
  and the migrations are fatal when they fail, Redis and RabbitMQ are not.
\<close>

record ('r, 'j, 'q, 'c) startup_libs =
  su_parse_addr :: "string \<Rightarrow> string + socket_addr"
  su_connect_pool :: "pool_options \<Rightarrow> string \<Rightarrow> pg_error + unit"
  su_links :: "link \<times> link \<times> link \<times> link"
  su_redis_open :: "string \<Rightarrow> redis_error + 'c"
  su_redis_connect :: "'c \<Rightarrow> redis_error + 'r"
  su_amqp :: "('q, 'j) amqp_client"

datatype startup_error = ConfigError string | StartupDbError pg_error

definition startup ::
    "('r, 'j, 'q, 'c) startup_libs \<Rightarrow> env_vars \<Rightarrow> schema \<Rightarrow> table \<Rightarrow> 'q \<Rightarrow>
     (startup_error + ('r, 'q) app_state) \<times> schema" where
  "startup U env s db broker =
     (case from_env (su_parse_addr U) env of
        Inl e \<Rightarrow> (Inl (ConfigError e), s)
      | Inr config \<Rightarrow>
     (case create_pool (su_connect_pool U) (database_url config) of
        Inl e \<Rightarrow> (Inl (StartupDbError e), s)
      | Inr _ \<Rightarrow>
     (case run_migrations (su_links U) s of
        (Inl e, s) \<Rightarrow> (Inl (StartupDbError e), s)
      | (Inr _, s) \<Rightarrow>
          (let cache = cache_new (su_redis_open U) (su_redis_connect U) config;
               channel = (case connect_rabbitmq (su_amqp U) (amqp_url config) broker of
                            (Inr _, q) \<Rightarrow> Some q | (Inl e, q) \<Rightarrow> None)
           in (Inr (app_new db cache config channel), s)))))"

section \<open>Properties\<close>

lemma applied_versions_eq:
  "applied_versions s = (Inr {v. \<exists>d. (v, d, True) \<in> set (sc_versions s)}, s)"
  by (force simp: applied_versions_def)

definition migrated :: "schema \<Rightarrow> bool" where
  "migrated s = (set script_001 \<subseteq> sc_objects s \<and> (1, ''create_backups'', True) \<in> set (sc_versions s))"

lemma script_001_long: "1 < length script_001"
  by (simp add: script_001_def)

text \<open>On a schema where version 1 is recorded nothing is left to do.\<close>

lemma run_migrations_recorded:
  "(1, d, True) \<in> set (sc_versions s) \<Longrightarrow>
   fst (run_migrations (Up, Up, Up, Up) s) = Inr () \<and> sc_versions (snd (run_migrations (Up, Up, Up, Up) s)) = sc_versions s"
  by (auto simp: run_migrations_def run_script_def applied_versions_eq)

definition demo_schema :: schema where
  "demo_schema = \<lparr> sc_objects = set script_001, sc_versions = [(1, ''create_backups'', True)] \<rparr>"

lemma demo_schema_ready: "fst (run_migrations (Up, Up, Up, Up) demo_schema) = Inr ()"
  using run_migrations_recorded [of "''create_backups''" demo_schema] by (simp add: demo_schema_def)

definition demo_startup :: "(doc mem_store, doc, doc mem_broker, unit) startup_libs" where
  "demo_startup =
     \<lparr> su_parse_addr = demo_parse_addr, su_connect_pool = (\<lambda>options url. Inr ()),
       su_links = (Up, Up, Up, Up), su_redis_open = (\<lambda>url. Inr ()),
       su_redis_connect = (\<lambda>c. Inl (RedisError ''refused'')), su_amqp = mem_amqp \<rparr>"

text \<open>
  C34: As \<^verbatim>\<open>sqlx::query\<close> prepares its text, the script is refused as a text of several commands: a database in which version 1 is not recorded is never
  migrated, and the service does not start, whatever the rest of its environment.
\<close>

theorem multi_command_script_blocks_startup:
  assumes "sc_versions s = []"
  shows "\<not> is_ok (fst (startup U env s db broker)) \<and> \<not> migrated (snd (startup U env s db broker))"
proof -
  obtain l1 l2 l3 l4 where l: "su_links U = (l1, l2, l3, l4)" by (cases "su_links U")
  have "\<not> is_ok (fst (run_migrations (l1, l2, l3, l4) s)) \<and>
      sc_versions (snd (run_migrations (l1, l2, l3, l4) s)) = []"
    using assms script_001_long
    by (cases l1; cases l2; cases l3)
      (auto simp: run_migrations_def run_script_def applied_versions_eq)
  with assms show ?thesis
    by (cases "run_migrations (l1, l2, l3, l4) s")
      (auto simp: startup_def l migrated_def split: sum.splits)
qed

lemma multi_command_script_blocks_startup_witness:
  "\<not> is_ok (fst (startup demo_startup Map.empty \<lparr> sc_objects = {}, sc_versions = [] \<rparr> [] empty_broker))"
  using multi_command_script_blocks_startup [of "\<lparr> sc_objects = {}, sc_versions = [] \<rparr>"
      demo_startup Map.empty "[]" empty_broker]
  by (simp add: demo_startup_def)

text \<open>
  Only the configuration and the database can stop the service. When the addresses parse, the
  pool connects and the migrations run, start-up succeeds whatever Redis and RabbitMQ do: a failed
  Redis leaves it without a cache, a failed broker without a channel.
\<close>

theorem startup_degrades:
  assumes "from_env (su_parse_addr U) env = Inr config" and "create_pool (su_connect_pool U) (database_url config) = Inr ()"
    and "fst (run_migrations (su_links U) s) = Inr ()"
  shows "\<exists>a. fst (startup U env s db broker) = Inr a \<and> a_db a = db \<and> a_config a = config \<and>
    a_counters a = Map.empty \<and>
    (a_cache a = None \<longleftrightarrow>
      (case su_redis_open U (redis_url config) of Inl e \<Rightarrow> True | Inr c \<Rightarrow> \<not> is_ok (su_redis_connect U c))) \<and>
    (a_amqp a = None \<longleftrightarrow> \<not> is_ok (fst (connect_rabbitmq (su_amqp U) (amqp_url config) broker)))"
  using assms
  by (cases "run_migrations (su_links U) s";
      cases "connect_rabbitmq (su_amqp U) (amqp_url config) broker")
    (auto simp: startup_def app_new_def cache_new_def split: sum.splits)

lemma startup_degrades_witness:
  "\<exists>a. fst (startup demo_startup Map.empty demo_schema [] empty_broker) = Inr a \<and>
     a_cache a = None"
proof -
  have env: "from_env (su_parse_addr demo_startup) Map.empty = Inr dev_config"
    using from_env_empty by (simp add: demo_startup_def)
  have mig: "fst (run_migrations (su_links demo_startup) demo_schema) = Inr ()"
    using demo_schema_ready by (simp add: demo_startup_def)
  from startup_degrades [OF env _ mig, of "[]" empty_broker] show ?thesis
    by (auto simp: create_pool_def demo_startup_def)
qed

end
