(* ===== verification/Telemetry.thy ===== *)
theory Telemetry
  imports Config
begin

text \<open>
  \<^verbatim>\<open>crates/backup-common/src/telemetry.rs\<close>: the log subscriber both binaries install and the optional
  export of traces. The exporter, provider and tracer are objects of OpenTelemetry, hence of
  arbitrary types; the parser of the filter and the shutdown of a provider are parameters.
\<close>

section \<open>The provider\<close>

type_synonym attribute = "string \<times> string"

record ('x, 'p, 't) otel_libs =
  ot_filter_ok :: "string \<Rightarrow> bool"
  ot_exporter :: "string \<Rightarrow> string + 'x"
  ot_provider :: "'x \<Rightarrow> attribute list \<Rightarrow> 'p"
  ot_tracer :: "'p \<Rightarrow> string \<Rightarrow> 't"
  ot_shutdown :: "'p \<Rightarrow> string + unit"

text \<open>\<^verbatim>\<open>CARGO_PKG_VERSION\<close> of the crate.\<close>

definition pkg_version :: string where "pkg_version = ''0.1.0''"

definition setup_otel_provider :: "('x, 'p, 't) otel_libs \<Rightarrow> string \<Rightarrow> string \<Rightarrow> string + 'p" where
  "setup_otel_provider T service endpoint =
     (case ot_exporter T endpoint of
        Inl e \<Rightarrow> Inl e
      | Inr exporter \<Rightarrow>
          (let resource = [(''service.name'', service), (''service.version'', pkg_version)]
           in Inr (ot_provider T exporter resource)))"

section \<open>The subscriber\<close>

record 't subscriber =
  sb_filter :: string
  sb_target :: bool
  sb_thread_ids :: bool
  sb_tracer :: "'t option"

text \<open>\<^verbatim>\<open>init\<close> panics, \<^const>\<open>None\<close>, when the process has a global subscriber already.\<close>

definition registry_init :: "'t subscriber \<Rightarrow> 't subscriber option \<Rightarrow> 't subscriber option" where
  "registry_init sub glob = (case glob of None \<Rightarrow> Some sub | Some _ \<Rightarrow> None)"

definition init_telemetry ::
    "('x, 'p, 't) otel_libs \<Rightarrow> env_vars \<Rightarrow> string \<Rightarrow> 't subscriber option \<Rightarrow> ('p option \<times> 't subscriber) option" where
  "init_telemetry T env service glob =
     (let default = ''info,tower_http=debug,sqlx=warn'';
          env_filter = (case env ''RUST_LOG'' of
              Some s \<Rightarrow> if ot_filter_ok T s then s else default
            | None \<Rightarrow> default);
          sub = (\<lambda>tracer. \<lparr> sb_filter = env_filter, sb_target = True, sb_thread_ids = True, sb_tracer = tracer \<rparr>)
      in case env ''OTEL_EXPORTER_OTLP_ENDPOINT'' of
           Some endpoint \<Rightarrow>
             (case setup_otel_provider T service endpoint of
                Inr provider \<Rightarrow>
                  map_option (Pair (Some provider)) (registry_init (sub (Some (ot_tracer T provider service))) glob)
              | Inl e \<Rightarrow> map_option (Pair None) (registry_init (sub None) glob))
         | None \<Rightarrow> map_option (Pair None) (registry_init (sub None) glob))"

text \<open>The end of the export; a failure is only logged.\<close>

datatype flush = NothingToFlush | Flushed | FlushFailed string

definition shutdown_telemetry :: "('x, 'p, 't) otel_libs \<Rightarrow> 'p option \<Rightarrow> flush" where
  "shutdown_telemetry T provider =
     (case provider of
        None \<Rightarrow> NothingToFlush
      | Some p \<Rightarrow> (case ot_shutdown T p of Inl e \<Rightarrow> FlushFailed e | Inr _ \<Rightarrow> Flushed))"

section \<open>Set-up never fails in a fresh process\<close>

definition exporting :: "('x, 'p, 't) otel_libs \<Rightarrow> env_vars \<Rightarrow> bool" where
  "exporting T env = (\<exists>endpoint. env ''OTEL_EXPORTER_OTLP_ENDPOINT'' = Some endpoint \<and> is_ok (ot_exporter T endpoint))"

lemma init_telemetry_fresh:
  obtains provider sub where "init_telemetry T env service None = Some (provider, sub)"
    "provider \<noteq> None \<longleftrightarrow> exporting T env" "sb_tracer sub = map_option (\<lambda>p. ot_tracer T p service) provider"
    "shutdown_telemetry T provider \<noteq> NothingToFlush \<longleftrightarrow> exporting T env"
  by (cases "env ''OTEL_EXPORTER_OTLP_ENDPOINT''"; cases "ot_exporter T (the (env ''OTEL_EXPORTER_OTLP_ENDPOINT''))")
    (auto simp: init_telemetry_def registry_init_def setup_otel_provider_def exporting_def shutdown_telemetry_def Let_def
      split: sum.splits)

lemma init_telemetry_twice: "init_telemetry T env service (Some sub) = None"
  by (auto simp: init_telemetry_def registry_init_def Let_def split: option.splits sum.splits)

end
