(* ===== verification/Lifecycle.thy ===== *)
theory Lifecycle
  imports Migrations Apollo Worker Telemetry
begin

text \<open>
  The two \<^verbatim>\<open>main\<close> functions from the first line to the last: what they set up in which order, which
  failure ends the process and how, and what is released at the end. Signals are the boundary
  between the events before and after them; the servers' own loops are parameters. The environment is
  the one after \<^verbatim>\<open>dotenvy\<close> has added what the \<^verbatim>\<open>.env\<close> file defines.
\<close>

section \<open>The service\<close>

text \<open>
  What \<^verbatim>\<open>main\<close> reaches for beyond start-up: the metrics recorder and the HTTP client (both with
  \<^verbatim>\<open>expect\<close>), the listener, and the server, which returns when the shutdown signal has come and the
  open requests are answered.
\<close>

record main_libs =
  ml_recorder :: "string + unit"
  ml_client :: "nat \<Rightarrow> string + unit"
  ml_bind :: "socket_addr \<Rightarrow> string + unit"
  ml_serve :: "string + unit"

datatype main_step =
    StateBuilt
  | UpdaterSpawned updater_config
  | GrpcSpawned socket_addr
  | HttpBound socket_addr
  | HttpDrained
  | GrpcStopped
  | AmqpClosed
  | TelemetryShut flush

datatype main_error = StartupFailed startup_error | BindFailed string | ServeFailed string

datatype main_exit = ReturnedOk | ReturnedErr main_error | MainPanicked

definition shutdown_steps :: "('x, 'p, 't) otel_libs \<Rightarrow> 'p option \<Rightarrow> ('r, 'q) app_state \<Rightarrow> main_step list" where
  "shutdown_steps T provider a =
     [GrpcStopped] @ (if a_amqp a = None then [] else [AmqpClosed]) @ [TelemetryShut (shutdown_telemetry T provider)]"

text \<open>From the state to the end: updater, gRPC task, listener, server, shutdown.\<close>

definition run_servers ::
    "('x, 'p, 't) otel_libs \<Rightarrow> main_libs \<Rightarrow> 'p option \<Rightarrow> ('r, 'q) app_state \<Rightarrow> main_exit \<times> main_step list" where
  "run_servers T M provider a =
     (let config = a_config a
      in case (case updater_config_of config of
                 None \<Rightarrow> Some []
               | Some up \<Rightarrow> (case ml_client M (up_timeout up) of Inl e \<Rightarrow> None | Inr _ \<Rightarrow> Some [UpdaterSpawned up])) of
           None \<Rightarrow> (MainPanicked, [])
         | Some updater \<Rightarrow>
             (let steps = updater @ [GrpcSpawned (grpc_addr config)]
              in case ml_bind M (listen_addr config) of
                   Inl e \<Rightarrow> (ReturnedErr (BindFailed e), steps)
                 | Inr _ \<Rightarrow>
                     (case ml_serve M of
                        Inl e \<Rightarrow> (ReturnedErr (ServeFailed e), steps @ [HttpBound (listen_addr config)])
                      | Inr _ \<Rightarrow>
                          (ReturnedOk,
                           steps @ [HttpBound (listen_addr config), HttpDrained] @ shutdown_steps T provider a))))"

definition service_main ::
    "('x, 'p, 't) otel_libs \<Rightarrow> ('r, 'j, 'q, 'c) startup_libs \<Rightarrow> main_libs \<Rightarrow> env_vars \<Rightarrow> 't subscriber option \<Rightarrow>
     schema \<Rightarrow> table \<Rightarrow> 'q \<Rightarrow> main_exit \<times> main_step list" where
  "service_main T U M env glob s db broker =
     (case init_telemetry T env ''backup-service'' glob of
        None \<Rightarrow> (MainPanicked, [])
      | Some (provider, sub) \<Rightarrow>
          (case startup U env s db broker of
             (Inl e, s) \<Rightarrow> (ReturnedErr (StartupFailed e), [])
           | (Inr a, s) \<Rightarrow>
               (case ml_recorder M of
                  Inl e \<Rightarrow> (MainPanicked, [])
                | Inr _ \<Rightarrow> (case run_servers T M provider a of (exit, steps) \<Rightarrow> (exit, StateBuilt # steps)))))"

text \<open>
  C17: The service starts and stops in order. With the database and the listener up, in a fresh
  process, \<^verbatim>\<open>main\<close> returns success whatever Redis, RabbitMQ, the trace exporter and the configuration
  service do; the gRPC server is started before HTTP is bound and stopped only after the open HTTP
  requests are answered, then the broker's connection is closed if there was one, and the spans are
  flushed last, if they are exported.
\<close>

theorem service_starts_and_stops_in_order:
  assumes config: "from_env (su_parse_addr U) env = Inr config" and pool: "create_pool (su_connect_pool U) (database_url config) = Inr ()"
    and migrated: "fst (run_migrations (su_links U) s) = Inr ()"
    and libs: "ml_recorder M = Inr ()" "\<And>n. ml_client M n = Inr ()" "ml_bind M (listen_addr config) = Inr ()" "ml_serve M = Inr ()"
  shows "\<exists>flush. (flush \<noteq> NothingToFlush \<longleftrightarrow> exporting T env) \<and>
    service_main T U M env None s db broker =
      (ReturnedOk,
       [StateBuilt] @ (case updater_config_of config of None \<Rightarrow> [] | Some up \<Rightarrow> [UpdaterSpawned up]) @
       [GrpcSpawned (grpc_addr config), HttpBound (listen_addr config), HttpDrained, GrpcStopped] @
       (if is_ok (fst (connect_rabbitmq (su_amqp U) (amqp_url config) broker)) then [AmqpClosed] else []) @
       [TelemetryShut flush])"
proof -
  obtain a s' where a: "startup U env s db broker = (Inr a, s')" and cfg: "a_config a = config"
    and amqp: "a_amqp a = None \<longleftrightarrow> \<not> is_ok (fst (connect_rabbitmq (su_amqp U) (amqp_url config) broker))"
  proof -
    obtain s' where m: "run_migrations (su_links U) s = (Inr (), s')"
      using migrated by (cases "run_migrations (su_links U) s") auto
    obtain c q where c: "connect_rabbitmq (su_amqp U) (amqp_url config) broker = (c, q)" by fastforce
    show ?thesis
      by (rule that [of "app_new db (cache_new (su_redis_open U) (su_redis_connect U) config) config
            (case c of Inr _ \<Rightarrow> Some q | Inl e \<Rightarrow> None)" s'])
        (auto simp: startup_def config pool m c app_new_def split: sum.splits)
  qed
  obtain provider sub where t: "init_telemetry T env ''backup-service'' None = Some (provider, sub)"
    "shutdown_telemetry T provider \<noteq> NothingToFlush \<longleftrightarrow> exporting T env"
    by (rule init_telemetry_fresh)
  have "run_servers T M provider a =
      (ReturnedOk, (case updater_config_of config of None \<Rightarrow> [] | Some up \<Rightarrow> [UpdaterSpawned up]) @
        [GrpcSpawned (grpc_addr config), HttpBound (listen_addr config), HttpDrained] @ shutdown_steps T provider a)"
    by (simp add: run_servers_def cfg libs Let_def split: option.splits)
  then show ?thesis
    using t(2) by (intro exI [of _ "shutdown_telemetry T provider"])
      (simp add: service_main_def t(1) a libs(1) shutdown_steps_def amqp)
qed

text \<open>The reference environment: no Redis, an empty broker, no exporter, no configuration service.\<close>

definition demo_telemetry :: "(unit, unit, unit) otel_libs" where
  "demo_telemetry = \<lparr> ot_filter_ok = (\<lambda>s. True), ot_exporter = (\<lambda>url. Inr ()), ot_provider = (\<lambda>x attrs. ()),
     ot_tracer = (\<lambda>p name. ()), ot_shutdown = (\<lambda>p. Inr ()) \<rparr>"

definition demo_main :: main_libs where
  "demo_main = \<lparr> ml_recorder = Inr (), ml_client = (\<lambda>n. Inr ()), ml_bind = (\<lambda>addr. Inr ()), ml_serve = Inr () \<rparr>"

lemma service_starts_and_stops_in_order_witness:
  "fst (service_main demo_telemetry demo_startup demo_main Map.empty None demo_schema
     [] empty_broker) = ReturnedOk"
proof -
  have env: "from_env (su_parse_addr demo_startup) Map.empty = Inr dev_config"
    using from_env_empty by (simp add: demo_startup_def)
  have mig: "fst (run_migrations (su_links demo_startup) demo_schema) = Inr ()"
    using demo_schema_ready by (simp add: demo_startup_def)
  have pool: "create_pool (su_connect_pool demo_startup) (database_url dev_config) = Inr ()"
    by (simp add: create_pool_def demo_startup_def)
  from service_starts_and_stops_in_order [OF env pool mig, of demo_main demo_telemetry "[]" empty_broker] show ?thesis
    by (auto simp: demo_main_def)
qed

text \<open>
  Nothing is torn down on a failure. Of all the ways \<^verbatim>\<open>main\<close> ends, only the one after the
  shutdown signal stops the gRPC server and flushes the spans; a start-up failure, a port that is
  taken, a server error or a panic ends the process with everything set up so far left as it is.
\<close>

theorem only_the_signal_shuts_down:
  "(fst (service_main T U M env glob s db broker) = ReturnedOk \<longleftrightarrow>
     GrpcStopped \<in> set (snd (service_main T U M env glob s db broker))) \<and>
   (fst (service_main T U M env glob s db broker) = ReturnedOk \<longleftrightarrow>
     (\<exists>flush. TelemetryShut flush \<in> set (snd (service_main T U M env glob s db broker)))) \<and>
   (AmqpClosed \<in> set (snd (service_main T U M env glob s db broker)) \<longrightarrow>
     fst (service_main T U M env glob s db broker) = ReturnedOk)"
  by (auto simp: service_main_def run_servers_def shutdown_steps_def Let_def
      split: option.splits prod.splits sum.splits)

section \<open>The worker\<close>

text \<open>
  \<^verbatim>\<open>main\<close> connects once to the broker and to the service, spawns the loop and waits for a signal.
  \<open>before\<close> are the events the loop receives until then, \<open>after\<close> those of the thirty seconds it is
  given to end, which begin with the change of the shutdown flag unless a delivery is in work. The
  loop does not panic: the analysis runs on the blocking pool, whose failure is an error of the job.
\<close>

datatype worker_report = CleanShutdown | ExitedWithError worker_error | ShutdownTimedOut

datatype worker_main_error = BrokerDown amqp_error | ServiceDown string

datatype worker_main_exit = WorkerOk worker_report flush | WorkerErr worker_main_error | WorkerPanicked

definition worker_report_of :: "worker_exit \<Rightarrow> worker_report" where
  "worker_report_of x =
     (case x of
        Exited (Inr _) \<Rightarrow> CleanShutdown
      | Exited (Inl e) \<Rightarrow> ExitedWithError e
      | Consuming \<Rightarrow> ShutdownTimedOut)"

definition worker_main ::
    "('x, 'p, 't) otel_libs \<Rightarrow> ('q, 'a) amqp_client \<Rightarrow> (string \<Rightarrow> string + unit) \<Rightarrow> ('j, 'f, 'w) worker_libs \<Rightarrow>
     env_vars \<Rightarrow> 't subscriber option \<Rightarrow> 'q \<Rightarrow> 'j worker_event list \<Rightarrow> 'j worker_event list \<Rightarrow> 'w \<Rightarrow>
     worker_main_exit \<times> 'w" where
  "worker_main T call connect W env glob broker before after w =
     (case init_telemetry T env ''backup-worker'' glob of
        None \<Rightarrow> (WorkerPanicked, w)
      | Some (provider, sub) \<Rightarrow>
          (let config = worker_from_env env
           in case connect_rabbitmq call (wc_amqp_url config) broker of
                (Inl e, broker) \<Rightarrow> (WorkerErr (BrokerDown e), w)
              | (Inr _, broker) \<Rightarrow>
                  (case create_channel call broker of
                     (Inl e, broker) \<Rightarrow> (WorkerErr (BrokerDown e), w)
                   | (Inr _, broker) \<Rightarrow>
                       (case connect (wc_grpc_target config) of
                          Inl e \<Rightarrow> (WorkerErr (ServiceDown e), w)
                        | Inr _ \<Rightarrow>
                            (case run_worker W (before @ after) w of
                               (x, w) \<Rightarrow> (WorkerOk (worker_report_of x) (shutdown_telemetry T provider), w))))))"

text \<open>The connections \<^verbatim>\<open>main\<close> insists on.\<close>

definition worker_connects :: "('q, 'a) amqp_client \<Rightarrow> (string \<Rightarrow> string + unit) \<Rightarrow> env_vars \<Rightarrow> 'q \<Rightarrow> bool" where
  "worker_connects call connect env broker =
     (\<exists>q q'. connect_rabbitmq call (wc_amqp_url (worker_from_env env)) broker = (Inr (), q) \<and>
       create_channel call q = (Inr (), q') \<and> is_ok (connect (wc_grpc_target (worker_from_env env))))"

lemma worker_main_connected:
  assumes "worker_connects call connect env broker"
  obtains flush where "worker_main T call connect W env None broker before after w =
      (WorkerOk (worker_report_of (fst (run_worker W (before @ after) w))) flush, snd (run_worker W (before @ after) w))"
    "flush \<noteq> NothingToFlush \<longleftrightarrow> exporting T env"
proof -
  obtain provider sub where t: "init_telemetry T env ''backup-worker'' None = Some (provider, sub)"
    "shutdown_telemetry T provider \<noteq> NothingToFlush \<longleftrightarrow> exporting T env"
    by (rule init_telemetry_fresh)
  obtain q q' where "connect_rabbitmq call (wc_amqp_url (worker_from_env env)) broker = (Inr (), q)"
    "create_channel call q = (Inr (), q')" "connect (wc_grpc_target (worker_from_env env)) = Inr ()"
    using assms by (cases "connect (wc_grpc_target (worker_from_env env))") (auto simp: worker_connects_def)
  with t that [of "shutdown_telemetry T provider"] show ?thesis
    by (simp add: worker_main_def Let_def split_beta)
qed

text \<open>A loop that has ended sees no later event.\<close>

lemma worker_loop_append:
  "worker_loop W (es @ es') w =
     (case worker_loop W es w of (Consuming, w) \<Rightarrow> worker_loop W es' w | (Exited r, w) \<Rightarrow> (Exited r, w))"
proof (induction es arbitrary: w)
  case (Cons e es)
  show ?case
  proof (cases e)
    case (Delivered n data je)
    show ?thesis
    proof (cases "of_json (wl_job_json W) data")
      case (Inr job)
      obtain r w1 where p: "process_and_report W job je w = (r, w1)" by fastforce
      obtain r1 w2 where s1: "wl_settle W n Acked w1 = (r1, w2)" by fastforce
      obtain r2 w3 where s2: "wl_settle W n (Nacked True) w1 = (r2, w3)" by fastforce
      show ?thesis
        using Cons.IH by (cases r; cases r1; cases r2) (simp_all add: Delivered Inr p s1 s2)
    qed (simp add: Delivered Cons.IH)
  qed (use Cons.IH in simp_all)
qed simp

lemma run_worker_append:
  "run_worker W es w = (Exited r, w') \<Longrightarrow> run_worker W (es @ es') w = (Exited r, w')"
  by (auto simp: run_worker_def worker_loop_append split: sum.splits prod.splits)

text \<open>
  C13: The worker from start to end, whatever the broker's channel, the service and the blocking pool
  answer to any of its calls. Once connected, a consumer that cannot be opened ends the loop with its
  error before anything is settled. Otherwise the worker works off the deliveries of its loop one
  after the other, in their order: an unreadable payload is rejected without requeueing; a job is
  announced, reported after a successful announcement and analysis, acknowledged exactly when the
  report succeeded and put back otherwise; so each delivery is settled once. The loop goes on to the
  last delivery it receives before it is told to stop or the stream ends, unless the settlement of a
  job cannot be sent: with that one it ends in an error. The process reports a clean shutdown when
  the flag or the end of the stream reached the loop within the thirty seconds, the error when it
  ended in one, and a timeout otherwise; it ends with success in each case, after flushing the
  spans if they are exported.
\<close>

theorem worker_settles_and_stops:
  assumes "worker_connects call connect env broker"
  shows "\<exists>flush report w' parts.
    worker_main T call connect (traced W) env None broker before after (w, []) =
      (WorkerOk report flush, w', concat parts) \<and>
    (flush \<noteq> NothingToFlush \<longleftrightarrow> exporting T env) \<and>
    (case fst (wl_consume W QUEUE_NAME ''backup-worker'' w) of
       Inl e \<Rightarrow> parts = [] \<and> report = ExitedWithError (ChannelError e)
     | Inr _ \<Rightarrow>
         list_all2 (delivery_calls W) (take (length parts) (seen (before @ after))) parts \<and>
         (if \<exists>part \<in> set parts. settle_failed part
          then settle_failed (last parts) \<and> (\<forall>part \<in> set (butlast parts). \<not> settle_failed part) \<and>
            (\<exists>e. report = ExitedWithError (ChannelError e))
          else length parts = length (seen (before @ after)) \<and>
            report = (if stops (before @ after) then CleanShutdown else ShutdownTimedOut)))"
proof -
  let ?es = "before @ after"
  obtain flush where m: "worker_main T call connect (traced W) env None broker before after (w, []) =
      (WorkerOk (worker_report_of (fst (run_worker (traced W) ?es (w, [])))) flush, snd (run_worker (traced W) ?es (w, [])))"
    "flush \<noteq> NothingToFlush \<longleftrightarrow> exporting T env"
    by (rule worker_main_connected [OF assms])
  obtain r w1 where c: "wl_consume W QUEUE_NAME ''backup-worker'' w = (r, w1)" by fastforce
  show ?thesis
  proof (cases r)
    case (Inl e)
    with m c show ?thesis
      by (intro exI [of _ flush] exI [of _ "ExitedWithError (ChannelError e)"] exI [of _ w1] exI [of _ "[]"])
        (simp add: run_worker_def worker_report_of_def)
  next
    case (Inr u)
    obtain exit w' parts where l: "worker_loop (traced W) ?es (w1, []) = (exit, w', concat parts)" "run_trace W ?es exit parts"
      using worker_loop_trace [of W ?es w1 "[]"] by auto
    with c Inr have "run_worker (traced W) ?es (w, []) = (exit, w', concat parts)" by (simp add: run_worker_def)
    with m l(2) c Inr show ?thesis
      by (intro exI [of _ flush] exI [of _ "worker_report_of exit"] exI [of _ w'] exI [of _ parts])
        (auto simp: run_trace_def worker_report_of_def split: if_splits)
  qed
qed

definition demo_connect :: "string \<Rightarrow> string + unit" where
  "demo_connect url = Inr ()"

lemma demo_connects: "worker_connects (mem_amqp :: (unit mem_broker, unit) amqp_client) demo_connect Map.empty empty_broker"
  by (simp add: worker_connects_def connect_rabbitmq_def create_channel_def empty_broker_def demo_connect_def)

lemma worker_settles_and_stops_witness:
  "\<exists>flush report w' calls. worker_main demo_telemetry (mem_amqp :: (unit mem_broker, unit) amqp_client) demo_connect
      (traced (service_libs std_uuid (\<lambda>_. []) demo_job_json exact_f64)) Map.empty None empty_broker
      [Delivered 7 demo_job None] [ShutdownChanged True] (demo_world [] Up, []) = (WorkerOk report flush, w', calls) \<and>
    delivery_calls (service_libs std_uuid (\<lambda>_. []) demo_job_json exact_f64) (7, demo_job, None) calls"
proof -
  let ?W = "service_libs std_uuid (\<lambda>_. []) demo_job_json exact_f64"
  obtain flush report w' parts where m: "worker_main demo_telemetry (mem_amqp :: (unit mem_broker, unit) amqp_client) demo_connect
      (traced ?W) Map.empty None empty_broker [Delivered 7 demo_job None] [ShutdownChanged True] (demo_world [] Up, []) =
      (WorkerOk report flush, w', concat parts)"
    and p: "list_all2 (delivery_calls ?W) (take (length parts) [(7, demo_job, None)]) parts"
    and l: "parts \<noteq> [] \<or> length parts = 1"
    using worker_settles_and_stops [OF demo_connects, of demo_telemetry ?W
        "[Delivered 7 demo_job None]" "[ShutdownChanged True]" "demo_world [] Up"]
    by (fastforce split: if_splits)
  from l obtain part rest where "parts = part # rest" by (cases parts) auto
  with p have "concat parts = part" "delivery_calls ?W (7, demo_job, None) part" by auto
  with m show ?thesis by auto
qed

text \<open>
  C37: A dead consumer goes unnoticed. When the loop has ended, because the broker closed the stream
  or a settlement failed, nothing happens until the signal: what is delivered later is not settled,
  the process goes on waiting with a loop that is gone, and in the end reports success.
\<close>

theorem dead_worker_waits_for_signal:
  assumes "worker_connects call connect env broker" and "run_worker W before w = (Exited r, w')"
  shows "\<exists>flush. worker_main T call connect W env None broker (before @ unseen) after w =
    (WorkerOk (worker_report_of (Exited r)) flush, w')"
proof -
  obtain flush where "worker_main T call connect W env None broker (before @ unseen) after w =
      (WorkerOk (worker_report_of (fst (run_worker W ((before @ unseen) @ after) w))) flush,
       snd (run_worker W ((before @ unseen) @ after) w))"
    by (rule worker_main_connected [OF assms(1)])
  with run_worker_append [OF assms(2), of "unseen @ after"] show ?thesis by auto
qed

lemma dead_worker_waits_for_signal_witness:
  "\<exists>flush. worker_main demo_telemetry (mem_amqp :: (unit mem_broker, unit) amqp_client) demo_connect
      (service_libs std_uuid (\<lambda>_. []) demo_job_json exact_f64) Map.empty None empty_broker
      ([StreamEnded] @ [Delivered 7 demo_job None]) [ShutdownChanged True] (demo_world [] Up) =
    (WorkerOk CleanShutdown flush, demo_world [] Up)"
  using dead_worker_waits_for_signal [OF demo_connects, of "service_libs std_uuid (\<lambda>_. []) demo_job_json exact_f64"
      "[StreamEnded]" "demo_world [] Up" "Inr ()" "demo_world [] Up"]
  by (simp add: run_worker_def worker_report_of_def)

end
