(* ===== verification/Delivery.thy ===== *)
theory Delivery
  imports Worker
begin

text \<open>
  The job queue and the worker of \<^verbatim>\<open>crates/backup-worker/src/main.rs\<close> over many deliveries. A broker
  delivers a message until a worker settles it; one delivery is one pass of the loop with its own
  fate. The table after any such history is computed row by row, and the queue is a state machine
  whose steps are deliveries.
\<close>

section \<open>One delivery and its fate\<close>

text \<open>
  What can happen to one delivery: the end of its blocking task, the time, and the fates of the two
  gRPC calls (a call that the service answers with a database error is a refused one) and of the
  settlement on its way to the broker. A worker that is killed after the first call leaves what
  a refused report and a refused settlement leave.
\<close>

record fate =
  fa_tag :: nat
  fa_join :: "string option"
  fa_now :: micros
  fa_update :: link
  fa_report :: link
  fa_settle :: link

definition undisturbed :: "fate \<Rightarrow> bool" where
  "undisturbed f = (fa_join f = None \<and> fa_update f = Up \<and> fa_report f = Up \<and> fa_settle f = Up)"

definition settle_over :: "link \<Rightarrow> ('j, 'f, 'w) worker_libs \<Rightarrow> ('j, 'f, 'w) worker_libs" where
  "settle_over l W = W\<lparr> wl_settle := (\<lambda>n st w.
     case l of
       Up \<Rightarrow> wl_settle W n st w
     | Refused e \<Rightarrow> (Inl (AmqpError e), w)
     | Lost e \<Rightarrow> (Inl (AmqpError e), snd (wl_settle W n st w))) \<rparr>"

definition attempt ::
    "('j, 'f, worker_world) worker_libs \<Rightarrow> 'j \<times> fate \<Rightarrow> worker_world \<Rightarrow> worker_exit \<times> worker_world" where
  "attempt W d w =
     (case d of (data, f) \<Rightarrow>
       worker_loop (settle_over (fa_settle f) W) [Delivered (fa_tag f) data (fa_join f)]
         (w\<lparr> ww_now := fa_now f, ww_update_link := fa_update f, ww_report_link := fa_report f \<rparr>))"

fun attempts ::
    "('j, 'f, worker_world) worker_libs \<Rightarrow> ('j \<times> fate) list \<Rightarrow> worker_world \<Rightarrow> worker_world" where
  "attempts W [] w = w"
| "attempts W (d # ds) w = attempts W ds (snd (attempt W d w))"

section \<open>What one delivery does to a row\<close>

definition worked_row :: "fate \<Rightarrow> backup_job \<Rightarrow> backup \<Rightarrow> backup" where
  "worked_row f job b =
     (case fa_update f of
        Refused e \<Rightarrow> b
      | Lost e \<Rightarrow> set_status_row ''running'' (fa_now f) b
      | Up \<Rightarrow>
          if fa_join f \<noteq> None \<or> (\<exists>e. fa_report f = Refused e)
          then set_status_row ''running'' (fa_now f) b
          else finished_row job (fa_now f) b)"

definition row_after :: "(backup_job, 'j) codec \<Rightarrow> backup \<Rightarrow> 'j \<times> fate \<Rightarrow> backup" where
  "row_after json b d =
     (case of_json json (fst d) of
        Inl e \<Rightarrow> b
      | Inr job \<Rightarrow> if b_id b = j_backup_id job then worked_row (snd d) job b else b)"

lemma finished_set_status:
  "complete_row (if j_source_path job = [] then 0 else 1048576) now (set_status_row s now b) = finished_row job now b"
  by (simp add: complete_row_def set_status_row_def finished_row_def)

lemma core_after [simp]:
  "row_core (finished_row job now b) = row_core b" "row_core (worked_row f job b) = row_core b"
  "row_core (row_after json b d) = row_core b"
proof -
  show 1: "row_core (finished_row job now b) = row_core b" for job now b
    by (simp add: finished_row_def row_core_fields)
  show 2: "row_core (worked_row f job b) = row_core b" for f job b
    using 1 by (simp add: worked_row_def set_status_row_def row_core_fields split: link.splits)
  show "row_core (row_after json b d) = row_core b"
    using 2 by (simp add: row_after_def split: sum.splits)
qed

lemma id_after [simp]:
  "b_id (finished_row job now b) = b_id b" "b_id (worked_row f job b) = b_id b" "b_id (row_after json b d) = b_id b"
  using core_after unfolding row_core_fields by blast+

lemma update_status_running:
  assumes ok: "table_ok t" and up: "gx_link X = Up" and id: "parse_backup_id X (su_backup_id msg) = Inr i"
    and running: "su_status msg = ''running''"
  shows "snd (update_status X msg t) = upd_where (\<lambda>b. b_id b = i) (set_status_row ''running'' (gx_now X)) t"
    and "is_ok (fst (update_status X msg t)) \<longleftrightarrow> row_of i t \<noteq> None"
  using sql_set_status_good [OF ok, of "''running''" i "gx_now X"] up id running
  by (simp_all add: update_status_def grpc_exec_eq status_text_ok)

lemma report_result_completed:
  assumes ok: "table_ok t" and up: "gx_link X = Up" and id: "parse_backup_id X (pr_backup_id res) = Inr i"
    and completed: "pr_status res = ''completed''"
  shows "fst (snd (report_result X res (t, m))) = upd_where (\<lambda>b. b_id b = i) (complete_row (pr_size_bytes res) (gx_now X)) t"
    and "is_ok (fst (report_result X res (t, m)))"
  using update_rows_by_id(1) [OF ok keeps_core_rows(3), of "pr_size_bytes res" "gx_now X" i] up id completed
  by (simp_all add: report_result_def grpc_exec_eq sql_complete_def)

lemma process_effect:
  assumes U: "uuid_text U" and ok: "table_ok (ww_db w)"
    and f: "ww_now w = fa_now f" "ww_update_link w = fa_update f" "ww_report_link w = fa_report f"
  shows "case process_and_report (service_libs U pg json F) job (fa_join f) w of (r, w') \<Rightarrow>
    ww_db w' = upd_where (\<lambda>b. b_id b = j_backup_id job) (worked_row f job) (ww_db w) \<and> ww_log w' = ww_log w \<and>
    (is_ok r \<longleftrightarrow> row_of (j_backup_id job) (ww_db w) \<noteq> None \<and>
      fa_join f = None \<and> fa_update f = Up \<and> fa_report f = Up)"
proof -
  let ?S = "service_libs U pg json F" and ?i = "j_backup_id job"
  let ?m1 = "\<lparr> su_backup_id = uu_fmt U ?i, su_status = ''running'' \<rparr>"
  let ?X = "service_ctx U pg w"
  let ?run = "upd_where (\<lambda>b. b_id b = ?i) (set_status_row ''running'' (fa_now f)) (ww_db w)"
  have p: "parse_backup_id ?X (uu_fmt U ?i) = Inr ?i" by (rule parse_backup_id_fmt [OF U]) simp
  obtain r1 t1 where u: "update_status ?X ?m1 (ww_db w) = (r1, t1)" by fastforce
  have t1: "t1 = ?run" and r1: "is_ok r1 \<longleftrightarrow> row_of ?i (ww_db w) \<noteq> None" and ok1: "table_ok t1"
    using update_status_running [OF ok, of ?X ?m1 ?i] p u f(1) grpc_table_ok(1) [OF ok, of ?X ?m1] by simp_all
  obtain r2 t2 m2 where v: "report_result ?X (job_result ?S job) (t1, ww_metrics w) = (r2, t2, m2)"
    by (metis prod_cases3)
  have t2: "t2 = upd_where (\<lambda>b. b_id b = ?i) (complete_row (pr_size_bytes (job_result ?S job)) (fa_now f)) t1"
    and r2: "is_ok r2"
    using report_result_completed [OF ok1, of ?X "job_result ?S job" ?i "ww_metrics w"] p v f(1) by simp_all
  have none: "row_of ?i (ww_db w) = None \<Longrightarrow> upd_where (\<lambda>b. b_id b = ?i) g (ww_db w) = ww_db w" for g
    by (rule upd_where_none) (auto simp: find_None_iff)
  have fin: "t2 = upd_where (\<lambda>b. b_id b = ?i) (finished_row job (fa_now f)) (ww_db w)"
    by (simp add: t2 t1 upd_where_def finished_set_status set_status_row_def [of "''running''"] finished_row_def complete_row_def)
  have ctx: "service_ctx U pg (w\<lparr> ww_db := t1 \<rparr>) = ?X" by (simp add: service_ctx_def)
  have upd: "wl_update_status ?S ?m1 w =
      (case fa_update f of Up \<Rightarrow> (r1, w\<lparr> ww_db := t1 \<rparr>) | Refused e \<Rightarrow> (Inl (Transport e), w)
        | Lost e \<Rightarrow> (Inl (Transport e), w\<lparr> ww_db := t1 \<rparr>))"
    using f(2) u by (simp add: service_libs_def rpc_call_def split: link.splits)
  have rep: "wl_report_result ?S (job_result ?S job) (w\<lparr> ww_db := t1 \<rparr>) =
      (case fa_report f of Up \<Rightarrow> (r2, w\<lparr> ww_db := t2, ww_metrics := m2 \<rparr>)
        | Refused e \<Rightarrow> (Inl (Transport e), w\<lparr> ww_db := t1 \<rparr>)
        | Lost e \<Rightarrow> (Inl (Transport e), w\<lparr> ww_db := t2, ww_metrics := m2 \<rparr>))"
    using f(3) v ctx by (simp add: service_libs_def rpc_call_def split: link.splits)
  show ?thesis
  proof (cases "fa_update f")
    case Up
    show ?thesis
    proof (cases r1)
      case (Inl e)
      with r1 none Up upd show ?thesis by (simp add: process_and_report_def t1)
    next
      case (Inr x)
      then have some: "\<exists>b. row_of ?i (ww_db w) = Some b" using r1 by simp
      show ?thesis
      proof (cases "fa_join f")
        case (Some e)
        with Inr Up upd show ?thesis by (simp add: process_and_report_def t1 worked_row_def [abs_def])
      next
        case None
        from r2 obtain y where "r2 = Inr y" by (rule is_okE)
        with None Inr Up upd rep some fin t1 show ?thesis
          by (cases "fa_report f") (simp_all add: process_and_report_def worked_row_def [abs_def])
      qed
    qed
  next
    case (Refused e)
    with upd show ?thesis by (simp add: process_and_report_def worked_row_def [abs_def] upd_where_def)
  next
    case (Lost e)
    with upd show ?thesis by (simp add: process_and_report_def worked_row_def [abs_def] t1)
  qed
qed

section \<open>Any number of deliveries\<close>

lemma settle_over_sel [simp]:
  "wl_uuids (settle_over l W) = wl_uuids W" "wl_job_json (settle_over l W) = wl_job_json W"
  "wl_f64 (settle_over l W) = wl_f64 W" "wl_update_status (settle_over l W) = wl_update_status W"
  "wl_report_result (settle_over l W) = wl_report_result W"
  by (simp_all add: settle_over_def)

lemma process_settle_over [simp]: "process_and_report (settle_over l W) = process_and_report W"
  by (simp add: fun_eq_iff process_and_report_def job_result_def Let_def split: sum.splits option.splits prod.splits)

text \<open>The settlement the worker sends for a delivery, on the table it finds.\<close>

definition due :: "(backup_job, 'j) codec \<Rightarrow> table \<Rightarrow> 'j \<times> fate \<Rightarrow> settlement" where
  "due json t d =
     (case of_json json (fst d) of
        Inl e \<Rightarrow> Nacked False
      | Inr job \<Rightarrow>
          if row_of (j_backup_id job) t \<noteq> None \<and> fa_join (snd d) = None \<and> fa_update (snd d) = Up \<and> fa_report (snd d) = Up
          then Acked else Nacked True)"

lemma attempt_effect:
  assumes U: "uuid_text U" and ok: "table_ok (ww_db w)"
  shows "ww_db (snd (attempt (service_libs U pg json F) d w)) = map (\<lambda>b. row_after json b d) (ww_db w)"
    and "ww_log (snd (attempt (service_libs U pg json F) d w)) =
      ww_log w @ (if \<exists>e. fa_settle (snd d) = Refused e then [] else [(fa_tag (snd d), due json (ww_db w) d)])"
proof -
  obtain data f where d: "d = (data, f)" by fastforce
  let ?S = "service_libs U pg json F"
  let ?w = "w\<lparr> ww_now := fa_now f, ww_update_link := fa_update f, ww_report_link := fa_report f \<rparr>"
  have settle: "wl_settle (settle_over l ?S) n st v =
      ((case l of Up \<Rightarrow> Inr () | Refused e \<Rightarrow> Inl (AmqpError e) | Lost e \<Rightarrow> Inl (AmqpError e)),
       v\<lparr> ww_log := ww_log v @ (if \<exists>e. l = Refused e then [] else [(n, st)]) \<rparr>)" for l n st v
    by (simp add: settle_over_def split: link.splits)
  have "ww_db (snd (attempt ?S d w)) = map (\<lambda>b. row_after json b d) (ww_db w) \<and>
    ww_log (snd (attempt ?S d w)) =
      ww_log w @ (if \<exists>e. fa_settle f = Refused e then [] else [(fa_tag f, due json (ww_db w) d)])"
  proof (cases "of_json json data")
    case (Inl e)
    then show ?thesis by (simp add: d attempt_def settle row_after_def due_def)
  next
    case (Inr job)
    obtain r w1 where p: "process_and_report ?S job (fa_join f) ?w = (r, w1)" by fastforce
    have e: "ww_db w1 = upd_where (\<lambda>b. b_id b = j_backup_id job) (worked_row f job) (ww_db w)" "ww_log w1 = ww_log w"
      "is_ok r \<longleftrightarrow> row_of (j_backup_id job) (ww_db w) \<noteq> None \<and> fa_join f = None \<and> fa_update f = Up \<and> fa_report f = Up"
      using process_effect [OF U, of ?w f job pg json F] ok p by simp_all
    have db: "ww_db w1 = map (\<lambda>b. row_after json b d) (ww_db w)"
      by (simp add: e(1) d row_after_def Inr upd_where_def)
    have st: "due json (ww_db w) d = (if is_ok r then Acked else Nacked True)"
      by (simp add: e(3) d due_def Inr)
    show ?thesis unfolding st
      using db e(2) Inr p by (cases r; cases "fa_settle f") (simp_all add: d attempt_def settle)
  qed
  then show "ww_db (snd (attempt ?S d w)) = map (\<lambda>b. row_after json b d) (ww_db w)"
    "ww_log (snd (attempt ?S d w)) =
      ww_log w @ (if \<exists>e. fa_settle (snd d) = Refused e then [] else [(fa_tag (snd d), due json (ww_db w) d)])"
    by (simp_all add: d)
qed

lemma status_after: "status_check (b_status b) \<Longrightarrow> status_check (b_status (row_after json b d))"
  by (simp add: row_after_def worked_row_def finished_row_def set_status_row_def status_check_def
      split: sum.splits link.splits)

lemma attempt_table_ok:
  "uuid_text U \<Longrightarrow> table_ok (ww_db w) \<Longrightarrow> table_ok (ww_db (snd (attempt (service_libs U pg json F) d w)))"
  by (simp add: attempt_effect(1) table_ok_def comp_def status_after)

lemma attempts_append: "attempts W (ds @ ds') w = attempts W ds' (attempts W ds w)"
  by (induction ds arbitrary: w) simp_all

lemma attempts_table:
  assumes "uuid_text U" and "table_ok (ww_db w)"
  shows "ww_db (attempts (service_libs U pg json F) ds w) = map (\<lambda>b. foldl (row_after json) b ds) (ww_db w) \<and>
    table_ok (ww_db (attempts (service_libs U pg json F) ds w))"
  using assms(2)
proof (induction ds arbitrary: w)
  case (Cons d ds)
  let ?w = "snd (attempt (service_libs U pg json F) d w)"
  have "table_ok (ww_db ?w)" using attempt_table_ok [OF assms(1) Cons.prems] .
  note IH = Cons.IH [OF this, unfolded attempt_effect(1) [OF assms(1) Cons.prems]]
  then show ?case by (auto simp: comp_def)
qed simp

section \<open>Redelivery\<close>

definition is_for :: "(backup_job, 'j) codec \<Rightarrow> uuid \<Rightarrow> 'j \<Rightarrow> bool" where
  "is_for json i data = (case of_json json data of Inl e \<Rightarrow> False | Inr job \<Rightarrow> j_backup_id job = i)"

lemma row_after_other: "\<not> is_for json (b_id b) (fst d) \<Longrightarrow> row_after json b d = b"
  by (auto simp: row_after_def is_for_def split: sum.splits)

lemma row_after_undisturbed:
  "of_json json data = Inr job \<Longrightarrow> undisturbed f \<Longrightarrow> b_id b = j_backup_id job \<Longrightarrow>
   row_after json b (data, f) = finished_row job (fa_now f) b"
  by (simp add: row_after_def undisturbed_def worked_row_def)

lemma due_undisturbed:
  "of_json json data = Inr job \<Longrightarrow> undisturbed f \<Longrightarrow>
   due json t (data, f) = (if row_of (j_backup_id job) t = None then Nacked True else Acked)"
  by (simp add: due_def undisturbed_def)

lemma finished_row_core: "row_core b = row_core b' \<Longrightarrow> finished_row job now b = finished_row job now b'"
  by (cases b; cases b') (simp add: row_core_fields finished_row_def)

lemma foldl_row_core [simp]: "row_core (foldl (row_after json) b ds) = row_core b"
  by (induction ds arbitrary: b) simp_all

lemma foldl_row_id [simp]: "b_id (foldl (row_after json) b ds) = b_id b"
  using foldl_row_core unfolding row_core_fields by blast

lemma foldl_row_other:
  "b_id b \<noteq> i \<Longrightarrow> foldl (row_after json) b ds = foldl (row_after json) b (filter (\<lambda>d. \<not> is_for json i (fst d)) ds)"
proof (induction ds arbitrary: b)
  case (Cons d ds)
  then show ?case
    using row_after_other [of json b d] by (cases "is_for json i (fst d)") (auto simp: is_for_def split: sum.splits)
qed simp

lemma foldl_row_self:
  assumes "of_json json data = Inr job" and "undisturbed f" and "b_id b = j_backup_id job"
  shows "foldl (row_after json) b (ds @ [(data, f)]) = finished_row job (fa_now f) b"
  using row_after_undisturbed [OF assms(1,2), of "foldl (row_after json) b ds"] assms(3)
  by (simp add: finished_row_core [OF foldl_row_core])

text \<open>
  C7: Redelivery is harmless. A backup's job may have been delivered any number of times, in between
  the deliveries of any other messages, and each time the task may have failed, either call may not
  have reached the service or its answer may have been lost, and the settlement may have been lost: once it
  is delivered undisturbed, the whole table is the one the other messages and this delivery alone
  leave. Its own row is completed with the size and the time of this delivery; and the delivery is
  acknowledged if the row exists, put back otherwise.
\<close>

theorem redelivery_idempotent:
  assumes U: "uuid_text U" and ok: "table_ok (ww_db w)"
    and dec: "of_json json data = Inr job" and f: "undisturbed f"
  shows "let S = service_libs U pg json F;
      w' = attempts S (ds @ [(data, f)]) w;
      v = attempts S (filter (\<lambda>d. \<not> is_for json (j_backup_id job) (fst d)) ds @ [(data, f)]) w
    in ww_db w' = ww_db v \<and>
      row_of (j_backup_id job) (ww_db w') =
        map_option (\<lambda>b. b\<lparr> b_status := ''completed'', b_size_bytes := (if j_source_path job = [] then 0 else 1048576),
          b_updated_at := fa_now f \<rparr>) (row_of (j_backup_id job) (ww_db w)) \<and>
      ww_log w' = ww_log (attempts S ds w) @
        [(fa_tag f, if row_of (j_backup_id job) (ww_db w) = None then Nacked True else Acked)]"
proof -
  let ?S = "service_libs U pg json F" and ?i = "j_backup_id job"
  let ?ds' = "filter (\<lambda>d. \<not> is_for json ?i (fst d)) ds"
  note table = attempts_table [OF U ok, of pg json F]
  have same: "foldl (row_after json) b (ds @ [(data, f)]) = foldl (row_after json) b (?ds' @ [(data, f)])" for b
  proof (cases "b_id b = ?i")
    case True
    show ?thesis unfolding foldl_row_self [OF dec f True] ..
  next
    case False
    show ?thesis
      by (subst (1 2) foldl_row_other [OF False]) (simp del: foldl_append)
  qed
  have db: "ww_db (attempts ?S (ds @ [(data, f)]) w) = map (\<lambda>b. foldl (row_after json) b (ds @ [(data, f)])) (ww_db w)"
    using table by blast
  have own: "row_of ?i (map (\<lambda>b. foldl (row_after json) b ds) t) = map_option (\<lambda>b. foldl (row_after json) b ds) (row_of ?i t)" for ds t
    by (induction t) simp_all
  have row: "map_option (\<lambda>b. foldl (row_after json) b (ds @ [(data, f)])) (row_of ?i (ww_db w)) =
      map_option (finished_row job (fa_now f)) (row_of ?i (ww_db w))"
  proof (cases "row_of ?i (ww_db w)")
    case (Some b)
    then have "b_id b = ?i" using row_of_SomeD by blast
    from foldl_row_self [OF dec f this, of ds] show ?thesis unfolding Some option.map by (rule arg_cong)
  qed simp
  have last: "attempts ?S (ds @ [(data, f)]) w = snd (attempt ?S (data, f) (attempts ?S ds w))"
    by (simp add: attempts_append)
  have none: "row_of ?i (ww_db (attempts ?S ds w)) = None \<longleftrightarrow> row_of ?i (ww_db w) = None"
    using table [of ds] own [of ds "ww_db w"] by simp
  have log: "ww_log (attempts ?S (ds @ [(data, f)]) w) = ww_log (attempts ?S ds w) @
      [(fa_tag f, if row_of ?i (ww_db w) = None then Nacked True else Acked)]"
    unfolding last attempt_effect(2) [OF U conjunct2 [OF table]] due_undisturbed [OF dec f] none fst_conv snd_conv
    using f by (simp only: undisturbed_def link.distinct simp_thms if_False)
  have "ww_db (attempts ?S (ds @ [(data, f)]) w) = ww_db (attempts ?S (?ds' @ [(data, f)]) w)"
    using table [of "ds @ [(data, f)]"] table [of "?ds' @ [(data, f)]"] same by simp
  moreover have "row_of ?i (ww_db (attempts ?S (ds @ [(data, f)]) w)) = map_option (finished_row job (fa_now f)) (row_of ?i (ww_db w))"
    unfolding db own row ..
  ultimately show ?thesis using log by (simp only: Let_def finished_row_def [abs_def] simp_thms)
qed

lemma redelivery_idempotent_witness:
  "\<exists>f g. undisturbed f \<and> \<not> undisturbed g \<and>
     map_option b_updated_at (row_of 5 (ww_db (attempts (service_libs std_uuid (\<lambda>_. []) demo_job_json exact_f64)
       ([(demo_job, g)] @ [(demo_job, f)]) (demo_world [new_row 5 1 1 ''/d'' False] Up)))) = Some 70"
proof -
  define f where "f = \<lparr> fa_tag = 2, fa_join = None, fa_now = 70, fa_update = Up, fa_report = Up, fa_settle = Up \<rparr>"
  have u: "undisturbed f" by (simp add: f_def undisturbed_def)
  have n: "\<not> undisturbed (f\<lparr> fa_report := Lost ''reset'' \<rparr>)" by (simp add: undisturbed_def)
  let ?w = "demo_world [new_row 5 1 1 ''/d'' False] Up"
  have ok: "table_ok (ww_db ?w)" by (simp add: table_ok_def new_row_def)
  have dec: "of_json demo_job_json demo_job = Inr demo_job" by simp
  have "row_of 5 (ww_db (attempts (service_libs std_uuid (\<lambda>_. []) demo_job_json exact_f64)
      ([(demo_job, f\<lparr> fa_report := Lost ''reset'' \<rparr>)] @ [(demo_job, f)]) ?w)) =
    map_option (\<lambda>b. b\<lparr> b_status := ''completed'', b_size_bytes := (if j_source_path demo_job = [] then 0 else 1048576),
      b_updated_at := fa_now f \<rparr>) (row_of 5 (ww_db ?w))"
    using redelivery_idempotent [OF std_uuid_text ok dec u, of "\<lambda>_. []" exact_f64 "[(demo_job, f\<lparr> fa_report := Lost ''reset'' \<rparr>)]"]
    unfolding Let_def demo_job_sel(1) by (elim conjE)
  then have "map_option b_updated_at (row_of 5 (ww_db (attempts (service_libs std_uuid (\<lambda>_. []) demo_job_json exact_f64)
      ([(demo_job, f\<lparr> fa_report := Lost ''reset'' \<rparr>)] @ [(demo_job, f)]) ?w))) = Some 70"
    by (simp only: demo_world_sel) (simp add: new_row_def f_def)
  with u n show ?thesis by blast
qed

section \<open>The queue as a state machine\<close>

text \<open>
  One message of the queue is delivered, to whichever worker. If the broker receives an acknowledgement or a
  rejection for good, the message is gone; if it is told to put it back, or is told nothing and the
  worker's channel closes, the message is in the queue again, at any place. New jobs do not arrive.
\<close>

inductive turn ::
    "('j, 'f, worker_world) worker_libs \<Rightarrow> fate \<Rightarrow> 'j list \<times> worker_world \<Rightarrow> 'j list \<times> worker_world \<Rightarrow> bool"
  for W f where
  settled: "attempt W (data, f) w = (x, w') \<Longrightarrow> ww_log w' = ww_log w @ [(fa_tag f, st)] \<Longrightarrow> st \<noteq> Nacked True \<Longrightarrow>
    turn W f (xs @ data # ys, w) (xs @ ys, w')"
| returned: "attempt W (data, f) w = (x, w') \<Longrightarrow> ww_log w' \<in> {ww_log w, ww_log w @ [(fa_tag f, Nacked True)]} \<Longrightarrow>
    mset q' = mset (xs @ data # ys) \<Longrightarrow> turn W f (xs @ data # ys, w) (q', w')"

inductive turns ::
    "('j, 'f, worker_world) worker_libs \<Rightarrow> fate list \<Rightarrow> 'j list \<times> worker_world \<Rightarrow> 'j list \<times> worker_world \<Rightarrow> bool"
  for W where
  turns_Nil: "turns W [] s s"
| turns_Cons: "turn W f s s' \<Longrightarrow> turns W fs s' s'' \<Longrightarrow> turns W (f # fs) s s''"

inductive_cases turnE: "turn W f (q, w) s'"

text \<open>
  What holds throughout: every backup of \<open>I\<close> has its row, and its job is still in the queue or the row
  is completed; the queue holds no job of any other backup.
\<close>

definition working :: "(backup_job, 'j) codec \<Rightarrow> uuid set \<Rightarrow> 'j list \<times> worker_world \<Rightarrow> bool" where
  "working json I s =
     (case s of (q, w) \<Rightarrow> table_ok (ww_db w) \<and>
       (\<forall>i \<in> I. \<exists>b. row_of i (ww_db w) = Some b \<and> ((\<exists>data \<in> set q. is_for json i data) \<or> b_status b = ''completed'')) \<and>
       (\<forall>data \<in> set q. \<forall>job. of_json json data = Inr job \<longrightarrow> j_backup_id job \<in> I))"

lemma row_of_after: "row_of i (map (\<lambda>b. row_after json b d) t) = map_option (\<lambda>b. row_after json b d) (row_of i t)"
  by (induction t) simp_all

lemma acked_completes:
  assumes "is_for json (b_id b) data" and "row_of (b_id b) t = Some b" and "due json t (data, f) \<noteq> Nacked True"
  shows "b_status (row_after json b (data, f)) = ''completed''"
  using assms
  by (auto simp: is_for_def due_def row_after_def worked_row_def finished_row_def split: sum.splits if_splits)

lemma undisturbed_settles:
  "working json I (q, w) \<Longrightarrow> data \<in> set q \<Longrightarrow> undisturbed f \<Longrightarrow> due json (ww_db w) (data, f) \<noteq> Nacked True"
  by (fastforce simp: working_def due_def undisturbed_def split: sum.splits)

lemma turn_progress:
  assumes U: "uuid_text U" and inv: "working json I s" and turn: "turn (service_libs U pg json F) f s s'"
  shows "working json I s'" and "length (fst s') + (if undisturbed f then 1 else 0) \<le> length (fst s)"
proof -
  obtain q w where s: "s = (q, w)" by fastforce
  obtain q' w' where s': "s' = (q', w')" by fastforce
  have ok: "table_ok (ww_db w)" using inv by (simp add: working_def s)
  note eff = attempt_effect [OF U ok, of pg json F] and ok' = attempt_table_ok [OF U ok, of pg json F]
  note move = turn [unfolded s s']
  obtain xs data ys where q: "q = xs @ data # ys" and db: "ww_db w' = map (\<lambda>b. row_after json b (data, f)) (ww_db w)"
    and okw: "table_ok (ww_db w')"
    and out: "q' = xs @ ys \<and> due json (ww_db w) (data, f) \<noteq> Nacked True \<or> set q' = set q \<and> length q' = length q \<and> \<not> undisturbed f"
  proof (cases rule: turnE [OF move])
    case (1 data x w1 st xs ys)
    then have "due json (ww_db w) (data, f) = st" using eff(2) [of "(data, f)"] by (auto split: if_splits)
    with 1 eff(1) [of "(data, f)"] ok' [of "(data, f)"] show ?thesis by (intro that) auto
  next
    case (2 data x w1 q1 xs ys)
    have "\<not> undisturbed f"
    proof
      assume u: "undisturbed f"
      then have "ww_log w' = ww_log w @ [(fa_tag f, due json (ww_db w) (data, f))]"
        using 2 eff(2) [of "(data, f)"] by (auto simp: undisturbed_def)
      moreover have "due json (ww_db w) (data, f) \<noteq> Nacked True"
        using undisturbed_settles [OF inv [unfolded s] _ u, of data] 2 by simp
      ultimately show False using 2 by auto
    qed
    moreover have "set q' = set q" "length q' = length q"
      using 2 mset_eq_setD [of q' q] mset_eq_length [of q' q] by simp_all
    ultimately show ?thesis using 2 eff(1) [of "(data, f)"] ok' [of "(data, f)"] by (intro that) auto
  qed
  have left: "set q' \<subseteq> set q" using out q by auto
  have "\<exists>b. row_of i (ww_db w') = Some b \<and> ((\<exists>data \<in> set q'. is_for json i data) \<or> b_status b = ''completed'')" if i: "i \<in> I" for i
  proof -
    obtain b where b: "row_of i (ww_db w) = Some b" "(\<exists>data \<in> set q. is_for json i data) \<or> b_status b = ''completed''"
      using inv i unfolding working_def s prod.case by blast
    have b': "row_of i (ww_db w') = Some (row_after json b (data, f))" by (simp add: db row_of_after b(1))
    have id: "b_id b = i" using row_of_SomeD [OF b(1)] by simp
    show ?thesis
    proof (cases "is_for json i data")
      case True
      then show ?thesis
        using out b' acked_completes [of json b data "ww_db w" f] b(1) id q by auto
    next
      case False
      then have "row_after json b (data, f) = b" using row_after_other [of json b "(data, f)"] id by simp
      moreover have "(\<exists>data \<in> set q. is_for json i data) \<Longrightarrow> (\<exists>data \<in> set q'. is_for json i data)"
        using out q False by auto
      ultimately show ?thesis using b' b(2) by auto
    qed
  qed
  then show "working json I s'" using okw inv left by (auto simp: working_def s s')
  show "length (fst s') + (if undisturbed f then 1 else 0) \<le> length (fst s)"
    using out q by (auto simp: s s')
qed

lemma turns_progress:
  assumes U: "uuid_text U"
  shows "turns (service_libs U pg json F) fs s s' \<Longrightarrow> working json I s \<Longrightarrow>
    working json I s' \<and> length (fst s') + length (filter undisturbed fs) \<le> length (fst s)"
proof (induction rule: turns.induct)
  case (turns_Cons f s s' fs s'')
  from turn_progress [OF U turns_Cons.prems turns_Cons.hyps(1)] turns_Cons.IH show ?case by (auto split: if_splits)
qed simp

lemma turn_possible:
  assumes U: "uuid_text U" and ok: "table_ok (ww_db w)" and q: "q \<noteq> []"
  shows "\<exists>s'. turn (service_libs U pg json F) f (q, w) s'"
proof -
  obtain data ys where d: "q = [] @ data # ys" using q by (cases q) auto
  obtain x w' where a: "attempt (service_libs U pg json F) (data, f) w = (x, w')" by fastforce
  have log: "ww_log w' = ww_log w @ (if \<exists>e. fa_settle f = Refused e then [] else [(fa_tag f, due json (ww_db w) (data, f))])"
    using attempt_effect(2) [OF U ok, of pg json F "(data, f)"] a by simp
  show ?thesis
  proof (cases "(\<exists>e. fa_settle f = Refused e) \<or> due json (ww_db w) (data, f) = Nacked True")
    case True
    then have "ww_log w' \<in> {ww_log w, ww_log w @ [(fa_tag f, Nacked True)]}" using log by auto
    from turn.returned [OF a this refl, of "[]" ys] show ?thesis unfolding d by (rule exI)
  next
    case False
    with log have "ww_log w' = ww_log w @ [(fa_tag f, due json (ww_db w) (data, f))]" by simp
    from turn.settled [OF a this, of "[]" ys] False show ?thesis unfolding d by (intro exI) simp
  qed
qed

text \<open>
  C6: The job queue drains. Let every job in the queue belong to a stored backup, and let its messages be
  delivered in any order, each as often as it takes, with calls, tasks and settlements failing in any way.
  Every delivery that nothing disturbs makes the queue shorter, none makes it longer, and as long
  as a message is left a next delivery can happen. So after as many undisturbed deliveries as there
  were messages the queue is empty; and when it is, the row of every job that was in it is completed.
\<close>

theorem queue_drains:
  assumes U: "uuid_text U" and ok: "table_ok (ww_db w)"
    and rows: "\<And>data job. data \<in> set q \<Longrightarrow> of_json json data = Inr job \<Longrightarrow> row_of (j_backup_id job) (ww_db w) \<noteq> None"
    and run: "turns (service_libs U pg json F) fs (q, w) (q', w')"
  shows "length q' + length (filter undisturbed fs) \<le> length q \<and>
    (q' \<noteq> [] \<longrightarrow> (\<forall>f. \<exists>s. turn (service_libs U pg json F) f (q', w') s)) \<and>
    (q' = [] \<longrightarrow> (\<forall>data \<in> set q. \<forall>job. of_json json data = Inr job \<longrightarrow>
      (\<exists>b. row_of (j_backup_id job) (ww_db w') = Some b \<and> b_status b = ''completed'')))"
proof -
  let ?I = "{j_backup_id job | data job. data \<in> set q \<and> of_json json data = Inr job}"
  have "working json ?I (q, w)"
    unfolding working_def prod.case
  proof (intro conjI ballI allI impI)
    fix i assume "i \<in> ?I"
    then obtain data job where d: "data \<in> set q" "of_json json data = Inr job" "i = j_backup_id job" by blast
    then have "is_for json i data" by (simp add: is_for_def)
    then show "\<exists>b. row_of i (ww_db w) = Some b \<and> ((\<exists>data \<in> set q. is_for json i data) \<or> b_status b = ''completed'')"
      using rows [OF d(1,2)] d(1,3) by (cases "row_of i (ww_db w)") auto
  qed (use ok in auto)
  from turns_progress [OF U run this] have end_state: "working json ?I (q', w')"
    and len: "length q' + length (filter undisturbed fs) \<le> length q" by auto
  have "table_ok (ww_db w')" using end_state by (simp add: working_def)
  then have "q' \<noteq> [] \<longrightarrow> (\<forall>f. \<exists>s. turn (service_libs U pg json F) f (q', w') s)"
    using turn_possible [OF U] by blast
  moreover have "q' = [] \<longrightarrow> (\<forall>data \<in> set q. \<forall>job. of_json json data = Inr job \<longrightarrow>
      (\<exists>b. row_of (j_backup_id job) (ww_db w') = Some b \<and> b_status b = ''completed''))"
    using end_state by (fastforce simp: working_def)
  ultimately show ?thesis using len by blast
qed

lemma queue_drains_witness:
  "\<exists>f w'. undisturbed f \<and>
     turns (service_libs std_uuid (\<lambda>_. []) demo_job_json exact_f64) [f] ([demo_job], demo_world [new_row 5 1 1 ''/d'' False] Up) ([], w') \<and>
     (\<exists>b. row_of 5 (ww_db w') = Some b \<and> b_status b = ''completed'')"
proof -
  define f where "f = \<lparr> fa_tag = 2, fa_join = None, fa_now = 70, fa_update = Up, fa_report = Up, fa_settle = Up \<rparr>"
  let ?w = "demo_world [new_row 5 1 1 ''/d'' False] Up" and ?S = "service_libs std_uuid (\<lambda>_. []) demo_job_json exact_f64"
  have u: "undisturbed f" by (simp add: f_def undisturbed_def)
  have ok: "table_ok (ww_db ?w)" by (simp add: table_ok_def new_row_def)
  have row: "row_of 5 (ww_db ?w) \<noteq> None" by (simp add: new_row_def)
  have dec: "of_json demo_job_json demo_job = Inr demo_job" by simp
  obtain x w' where a: "attempt ?S (demo_job, f) ?w = (x, w')" by fastforce
  have "due demo_job_json (ww_db ?w) (demo_job, f) = Acked"
    using due_undisturbed [OF dec u, of "ww_db ?w"] row by simp
  then have "ww_log w' = ww_log ?w @ [(fa_tag f, Acked)]"
    using attempt_effect(2) [OF std_uuid_text ok, of "\<lambda>_. []" demo_job_json exact_f64 "(demo_job, f)"] a u
    by (simp add: undisturbed_def)
  from turn.settled [OF a this, of "[]" "[]"] have "turns ?S [f] ([demo_job], ?w) ([], w')"
    by (auto intro: turns_Cons turns_Nil)
  moreover have "\<exists>b. row_of (j_backup_id demo_job) (ww_db w') = Some b \<and> b_status b = ''completed''"
    using queue_drains [OF std_uuid_text ok _ calculation] row by simp
  ultimately show ?thesis using u by auto
qed

end
