(* ===== verification/Unit_Tests.thy ===== *)
theory Unit_Tests
  imports Worker Handlers Apollo
begin

text \<open>
  The repository's own unit tests, the \<^verbatim>\<open>#[cfg(test)]\<close> modules, on the model: each test is a
  predicate whose arguments are what the test takes from its environment (fresh ids, readings of a
  clock, libraries), and each is proved for all of them that a run of the test can meet. The
  tests of entropy are run over exact arithmetic.
\<close>

section \<open>apollo/merge.rs\<close>

definition base_config :: app_config where
  "base_config =
     \<lparr> database_url = ''postgres://local'', redis_url = ''redis://local'', amqp_url = ''amqp://local'',
       jwt_secret = ''secret'', listen_addr = SocketAddr [0, 0, 0, 0] 8080, grpc_addr = SocketAddr [0, 0, 0, 0] 50051,
       rate_limit = \<lparr> max_requests = 100, window_secs = 60 \<rparr>, cache_ttl_secs = 300, cached_list_limit = 20,
       cached_list_offset = 0, apollo_config_url = None, apollo_poll_interval_secs = 60, apollo_timeout_secs = 10 \<rparr>"

definition merge_only_set_fields :: bool where
  "merge_only_set_fields =
     (let update = \<lparr> u_rate_limit = Some \<lparr> ru_max_requests = Some 50, ru_window_secs = None \<rparr>,
            u_cache_ttl_secs = Some 600, u_cached_list_limit = None, u_cached_list_offset = Some 10 \<rparr>;
          config = apply_update base_config update
      in max_requests (rate_limit config) = 50 \<and> window_secs (rate_limit config) = 60 \<and>
         cache_ttl_secs config = 600 \<and> cached_list_limit config = 20 \<and> cached_list_offset config = 10 \<and>
         database_url config = ''postgres://local'' \<and> jwt_secret config = ''secret'')"

definition merge_empty_update_changes_nothing :: bool where
  "merge_empty_update_changes_nothing =
     (let original = base_config; config = apply_update base_config no_remote_update
      in max_requests (rate_limit config) = max_requests (rate_limit original) \<and>
         cache_ttl_secs config = cache_ttl_secs original \<and> cached_list_limit config = cached_list_limit original)"

definition merge_rate_limit_both_fields :: bool where
  "merge_rate_limit_both_fields =
     (let config = apply_update base_config
            (no_remote_update\<lparr> u_rate_limit := Some \<lparr> ru_max_requests = Some 200, ru_window_secs = Some 120 \<rparr> \<rparr>)
      in max_requests (rate_limit config) = 200 \<and> window_secs (rate_limit config) = 120)"

lemma merge_tests: merge_only_set_fields merge_empty_update_changes_nothing merge_rate_limit_both_fields
  by (simp_all add: merge_only_set_fields_def merge_empty_update_changes_nothing_def merge_rate_limit_both_fields_def
      base_config_def apply_update_def apply_rate_limit_def no_remote_update_def)

section \<open>cache.rs\<close>

definition sample_backup :: "uuid \<Rightarrow> uuid \<Rightarrow> micros \<Rightarrow> micros \<Rightarrow> backup" where
  "sample_backup i tenant_id now1 now2 =
     \<lparr> b_id = i, b_tenant_id = tenant_id, b_source_path = ''/data'', b_size_bytes = 0, b_status = ''pending'',
       b_encryption_enabled = False, b_created_at = now1, b_updated_at = now2 \<rparr>"

definition noop_get_backup_returns_none :: "('r, 'j) cache_libs \<Rightarrow> bool" where
  "noop_get_backup_returns_none L = (cache_get_backup L cache_noop 0 = None)"

definition noop_get_tenant_backups_returns_none :: "('r, 'j) cache_libs \<Rightarrow> bool" where
  "noop_get_tenant_backups_returns_none L = (cache_get_tenant_backups L cache_noop 0 = None)"

definition noop_ping_returns_false :: "('r, 'j) cache_libs \<Rightarrow> bool" where
  "noop_ping_returns_false L = (\<not> cache_ping L cache_noop)"

text \<open>The operations of the model cannot panic; the layer is still a no-op afterwards.\<close>

definition noop_set_and_invalidate_dont_panic :: "('r, 'j) cache_libs \<Rightarrow> micros \<Rightarrow> micros \<Rightarrow> bool" where
  "noop_set_and_invalidate_dont_panic L now1 now2 =
     (let backup = sample_backup 0 0 now1 now2;
          c = cache_set_backup L None cache_noop backup;
          c = cache_set_tenant_backups L None c 0 [backup] 1;
          c = cache_invalidate_backup L c (b_id backup);
          c = cache_invalidate_tenant_backups L c (b_tenant_id backup)
      in c = cache_noop)"

definition redis_roundtrip_when_available ::
    "('r, 'j) cache_libs \<Rightarrow> (string \<Rightarrow> redis_error + 'c) \<Rightarrow> ('c \<Rightarrow> redis_error + 'r) \<Rightarrow> env_vars \<Rightarrow> uuid \<Rightarrow> uuid \<Rightarrow>
     micros \<Rightarrow> micros \<Rightarrow> bool" where
  "redis_roundtrip_when_available L open_client connect env i tenant_id now1 now2 =
     (let url = env_or env ''REDIS_URL'' ''redis://127.0.0.1:6379'';
          config = \<lparr> database_url = [], redis_url = url, amqp_url = [], jwt_secret = [],
            listen_addr = SocketAddr [0, 0, 0, 0] 0, grpc_addr = SocketAddr [0, 0, 0, 0] 0,
            rate_limit = default_rate_limit, cache_ttl_secs = 300, cached_list_limit = 20, cached_list_offset = 0,
            apollo_config_url = None, apollo_poll_interval_secs = 60, apollo_timeout_secs = 10 \<rparr>;
          c = cache_new open_client connect config
      in if \<not> cache_ping L c then True
         else let backup = sample_backup i tenant_id now1 now2;
                  c1 = cache_set_backup L (Some config) c backup;
                  got = cache_get_backup L c1 i;
                  c2 = cache_invalidate_backup L c1 i;
                  c3 = cache_set_tenant_backups L (Some config) c2 tenant_id [backup] 1;
                  list = cache_get_tenant_backups L c3 tenant_id;
                  c4 = cache_invalidate_tenant_backups L c3 tenant_id
              in map_option b_id got = Some i \<and> cache_get_backup L c2 i = None \<and>
                 map_option (\<lambda>(items, tot). (length items, b_id (hd items), tot)) list = Some (1, i, 1) \<and>
                 cache_get_tenant_backups L c4 tenant_id = None)"

lemma noop_tests:
  "noop_get_backup_returns_none L" "noop_get_tenant_backups_returns_none L" "noop_ping_returns_false L"
  "noop_set_and_invalidate_dont_panic L now1 now2"
  by (simp_all add: noop_get_backup_returns_none_def noop_get_tenant_backups_returns_none_def noop_ping_returns_false_def
      noop_set_and_invalidate_dont_panic_def cache_get_backup_def cache_get_tenant_backups_def cache_ping_def
      cache_set_backup_def cache_set_tenant_backups_def cache_invalidate_backup_def cache_invalidate_tenant_backups_def
      cache_noop_def Let_def)

text \<open>On the reference store, reachable or not, whatever it holds.\<close>

lemma redis_roundtrip: "redis_roundtrip_when_available mem_libs open_client connect env i tenant_id now1 now2"
  by (auto simp: redis_roundtrip_when_available_def Let_def cache_ping_def cache_get_backup_def cache_get_tenant_backups_def
      cache_set_backup_def cache_set_tenant_backups_def cache_invalidate_backup_def cache_invalidate_tenant_backups_def
      cache_ttl_def mem_contents_def ok_def sample_backup_def split: option.splits)

section \<open>middleware/rate_limit.rs\<close>

text \<open>The answers of a fresh limiter to a sequence of calls.\<close>

definition answers :: "rate_limit_config \<Rightarrow> (uuid \<times> nanos) list \<Rightarrow> (unit + rate_limit_info) list" where
  "answers config calls = map (\<lambda>(_, _, r). r) (fst (keyed_run (check_and_increment config) calls Map.empty))"

definition allows_requests_under_limit :: "uuid \<Rightarrow> (nat \<Rightarrow> nanos) \<Rightarrow> bool" where
  "allows_requests_under_limit tenant now =
     (let config = \<lparr> max_requests = 5, window_secs = 60 \<rparr>
      in list_all is_ok (answers config (map (\<lambda>i. (tenant, now i)) [0..<5])))"

definition blocks_requests_over_limit :: "uuid \<Rightarrow> (nat \<Rightarrow> nanos) \<Rightarrow> bool" where
  "blocks_requests_over_limit tenant now =
     (let config = \<lparr> max_requests = 3, window_secs = 60 \<rparr>
      in map is_ok (answers config (map (\<lambda>i. (tenant, now i)) [0..<4])) = [True, True, True, False])"

definition separate_tenants_have_separate_limits :: "uuid \<Rightarrow> uuid \<Rightarrow> (nat \<Rightarrow> nanos) \<Rightarrow> bool" where
  "separate_tenants_have_separate_limits tenant_a tenant_b now =
     (let config = \<lparr> max_requests = 2, window_secs = 60 \<rparr>
      in map is_ok (answers config (map (\<lambda>i. (tenant_a, now i)) [0..<3] @ [(tenant_b, now 3)])) = [True, True, False, True])"

definition remaining_count_decreases :: "uuid \<Rightarrow> (nat \<Rightarrow> nanos) \<Rightarrow> bool" where
  "remaining_count_decreases tenant now =
     (let config = \<lparr> max_requests = 5, window_secs = 60 \<rparr>
      in map (map_sum id ri_remaining) (answers config (map (\<lambda>i. (tenant, now i)) [0..<2])) = [Inr 4, Inr 3])"

text \<open>A test, of five calls at most, takes less than the minute of its window.\<close>

definition within_a_minute :: "(nat \<Rightarrow> nanos) \<Rightarrow> bool" where
  "within_a_minute now = (\<forall>i < 5. now i < now 0 + 60 * 10 ^ 9)"

lemma answers_own:
  assumes "window_secs config = 60" and "within_a_minute now" and "n < 5"
  shows "answers config (map (\<lambda>i. (T, now i)) [0..<Suc n]) = map (verdict config) [0..<Suc n]"
proof -
  have w: "window config = 60 * 10 ^ 9" using assms(1) by (simp add: window_def)
  note c = check_new_window [of Map.empty T config "now 0"]
  let ?ts = "map (\<lambda>i. now (Suc i)) [0..<n]"
  have "map (\<lambda>i. (T, now i)) [0..<Suc n] = (T, now 0) # map (Pair T) ?ts"
    by (simp add: upt_conv_Cons map_Suc_upt [symmetric] comp_def del: upt_Suc)
  moreover have "map (\<lambda>(_, _, r). r) (fst (keyed_run (check_and_increment config) (map (Pair T) ?ts)
      (snd (check_and_increment config T (now 0) Map.empty)))) = map (\<lambda>i. verdict config (1 + i)) [0..<length ?ts]"
    by (rule own_window_run) (use c(2) w assms(2,3) in \<open>auto simp: within_a_minute_def\<close>)
  ultimately show ?thesis
    using c(1) by (simp add: answers_def keyed_run_Cons upt_conv_Cons map_Suc_upt [symmetric] comp_def del: keyed_run.simps upt_Suc)
qed

lemma answers_other:
  assumes "\<And>c. c \<in> set calls \<Longrightarrow> fst c \<noteq> T"
  shows "answers config (calls @ [(T, t)]) = answers config calls @ [verdict config 0]"
proof -
  have "filter (\<lambda>(k, _). k = T) calls = []" using assms by (force simp: filter_empty_conv)
  then have "snd (keyed_run (check_and_increment config) calls Map.empty) T = None"
    using limiter.run_project [of Map.empty T Map.empty config calls] by simp
  then show ?thesis
    using check_new_window(1) [of "snd (keyed_run (check_and_increment config) calls Map.empty)" T config t]
    by (simp add: answers_def keyed_run_append split_beta Let_def)
qed

lemma limiter_tests:
  assumes "within_a_minute now"
  shows "allows_requests_under_limit tenant now" "blocks_requests_over_limit tenant now" "remaining_count_decreases tenant now"
    and "tenant_a \<noteq> tenant_b \<Longrightarrow> separate_tenants_have_separate_limits tenant_a tenant_b now"
proof -
  have own: "answers \<lparr> max_requests = k, window_secs = 60 \<rparr> (map (\<lambda>i. (T, now i)) [0..<Suc n]) =
      map (verdict \<lparr> max_requests = k, window_secs = 60 \<rparr>) [0..<Suc n]" if "n < 5" for k T n
    using assms that by (intro answers_own) simp_all
  show "allows_requests_under_limit tenant now"
    using own [of 4 5 tenant] by (simp add: allows_requests_under_limit_def del: upt_Suc) (simp add: upt_rec verdict_def)
  show "blocks_requests_over_limit tenant now"
    using own [of 3 3 tenant] by (simp add: blocks_requests_over_limit_def del: upt_Suc) (simp add: upt_rec verdict_def)
  show "remaining_count_decreases tenant now"
    using own [of 1 5 tenant] by (simp add: remaining_count_decreases_def del: upt_Suc) (simp add: upt_rec verdict_def)
  show "separate_tenants_have_separate_limits tenant_a tenant_b now" if "tenant_a \<noteq> tenant_b"
  proof -
    have "answers \<lparr> max_requests = 2, window_secs = 60 \<rparr> (map (\<lambda>i. (tenant_a, now i)) [0..<3] @ [(tenant_b, now 3)]) =
        answers \<lparr> max_requests = 2, window_secs = 60 \<rparr> (map (\<lambda>i. (tenant_a, now i)) [0..<Suc 2]) @
        [verdict \<lparr> max_requests = 2, window_secs = 60 \<rparr> 0]"
      by (subst answers_other) (use that in \<open>auto simp: eval_nat_numeral\<close>)
    then show ?thesis
      using own [of 2 2 tenant_a] by (simp add: separate_tenants_have_separate_limits_def verdict_def upt_rec)
  qed
qed

section \<open>ffi.rs\<close>

definition empty_data_has_zero_entropy :: bool where
  "empty_data_has_zero_entropy = (shannon_entropy exact_f64 [] = 0)"

definition uniform_data_has_zero_entropy :: bool where
  "uniform_data_has_zero_entropy = (shannon_entropy exact_f64 (replicate 1024 0) < 1 / 1000)"

definition repeated_pattern_has_low_entropy :: bool where
  "repeated_pattern_has_low_entropy =
     (let data = map (\<lambda>i. word_of_nat (i mod 4)) [0..<1024]; e = shannon_entropy exact_f64 data
      in 19 / 10 < e \<and> e < 21 / 10)"

definition test_text :: string where
  "test_text = ''The quick brown fox jumps over the lazy dog. This is a test of entropy calculation in Rust.''"

definition text_has_moderate_entropy :: bool where
  "text_has_moderate_entropy =
     (let e = shannon_entropy exact_f64 (str_bytes test_text) in 35 / 10 < e \<and> e < 55 / 10)"

definition classify_entropy_levels :: bool where
  "classify_entropy_levels =
     (classify exact_f64 1 = Low \<and> classify exact_f64 5 = Normal \<and> classify exact_f64 7 = High \<and>
      classify exact_f64 (78 / 10) = VeryHigh \<and> is_suspicious VeryHigh \<and> \<not> is_suspicious Normal)"

lemma shannon_replicate: "shannon (replicate n b) = 0"
  unfolding shannon_zero_iff by (cases n) (simp_all add: set_replicate_conv_if del: replicate.simps)

text \<open>A periodic sequence has each of its symbols equally often.\<close>

lemma upt_period: "[0..<4 * Suc n] = [0..<4 * n] @ [4 * n, 4 * n + 1, 4 * n + 2, 4 * n + 3]"
proof -
  have "[0..<4 * n + 4] = [0..<4 * n] @ [4 * n..<4 * n + 4]" by (rule upt_add_eq_append) simp
  moreover have "[m..<m + 4] = [m, m + 1, m + 2, m + 3]" for m :: nat
    by (simp add: upt_conv_Cons eval_nat_numeral)
  ultimately show ?thesis by (metis add.commute mult_Suc_right)
qed

lemma count_pattern: "j < 4 \<Longrightarrow> count_list (map (\<lambda>i. i mod 4) [0..<4 * n]) j = n"
proof (induction n)
  case (Suc n)
  have "(4 * n) mod 4 = 0" "(4 * n + 1) mod 4 = 1" "(4 * n + 2) mod 4 = 2" "(4 * n + 3) mod 4 = 3"
    by presburger+
  moreover have "j = 0 \<or> j = 1 \<or> j = 2 \<or> j = 3" using Suc.prems by auto
  ultimately show ?case using Suc unfolding upt_period map_append count_list_append by auto
qed simp

text \<open>A lower bound from the integer logarithms of the counts.\<close>

fun ilog2 :: "nat \<Rightarrow> nat" where
  "ilog2 n = (if n < 2 then 0 else Suc (ilog2 (n div 2)))"

declare ilog2.simps [simp del]

lemma ilog2_le: "0 < n \<Longrightarrow> 2 ^ ilog2 n \<le> n"
proof (induction n rule: ilog2.induct)
  case (1 n)
  then show ?case by (subst ilog2.simps) (auto intro: le_trans [of _ "2 * (n div 2)"])
qed

definition log_weight :: "'a list \<Rightarrow> nat" where
  "log_weight xs = sum_list (map (\<lambda>x. ilog2 (length xs div count_list xs x)) xs)"

lemma shannon_ge:
  assumes "data \<noteq> []"
  shows "real (log_weight data) / real (length data) \<le> shannon data"
proof -
  let ?n = "length data" and ?c = "count_list data" and ?k = "\<lambda>b. ilog2 (length data div count_list data b)"
  have n: "0 < ?n" using assms by simp
  have each: "real (?c b) * real (?k b) / real ?n \<le> - byte_prob data b * log 2 (byte_prob data b)" if "b \<in> set data" for b
  proof -
    have c: "0 < ?c b" using that by (metis count_list_0_iff gr0I)
    then have "0 < ?n div ?c b" using count_le_length [of data b] by (simp add: div_greater_zero_iff)
    then have "2 ^ ?k b * ?c b \<le> ?n" by (metis ilog2_le div_times_less_eq_dividend le_trans mult_le_mono1)
    then have "real (2 ^ ?k b * ?c b) \<le> real ?n" by (simp only: of_nat_le_iff)
    then have "2 ^ ?k b \<le> real ?n / real (?c b)"
      using c by (simp add: le_divide_eq)
    then have "real (?k b) \<le> log 2 (real ?n / real (?c b))"
      using c n by (simp add: le_log_iff powr_realpow)
    also have "\<dots> = - log 2 (byte_prob data b)"
      using c n by (simp add: byte_prob_def log_divide)
    finally have "byte_prob data b * real (?k b) \<le> byte_prob data b * - log 2 (byte_prob data b)"
      using byte_prob_pos [OF that] by (intro mult_left_mono) simp_all
    then show ?thesis by (simp add: byte_prob_def)
  qed
  have "real (log_weight data) / real ?n = (\<Sum>b \<in> set data. real (?c b) * real (?k b) / real ?n)"
    by (simp add: log_weight_def sum_list_map_eq_sum_count sum_divide_distrib)
  also have "\<dots> \<le> shannon data"
    unfolding shannon_def by (rule sum_mono) (rule each)
  finally show ?thesis .
qed

lemma log_weight_text: "log_weight test_text = 351"
  by code_simp

lemma inj_of_char: "inj (of_char :: char \<Rightarrow> u8)"
proof (rule injI)
  fix c d :: char
  assume "(of_char c :: u8) = of_char d"
  then have "unat (of_nat (of_char c) :: u8) = unat (of_nat (of_char d) :: u8)" by (simp only: of_nat_of_char)
  then show "c = d" by (simp add: unat_of_nat of_char_mod_256)
qed

lemma log_weight_bytes: "log_weight (str_bytes s) = log_weight s"
  by (simp add: log_weight_def str_bytes_def count_list_map_conv [OF inj_of_char] comp_def)

lemma pattern_entropy: "shannon (map (\<lambda>i. word_of_nat (i mod 4)) [0..<1024]) = 2"
proof -
  let ?f = "word_of_nat :: nat \<Rightarrow> u8" and ?js = "map (\<lambda>i. i mod 4) [0..<4 * 256 :: nat]"
  let ?data = "map ?f ?js"
  have js: "set ?js = {0, 1, 2, 3}"
  proof -
    have "set ?js \<subseteq> {0, 1, 2, 3}" by auto
    moreover have "j \<in> set ?js" if "j < 4" for j
      using count_pattern [OF that, of 256] by (metis count_list_0_iff zero_neq_numeral)
    ultimately show ?thesis by auto
  qed
  have inj: "inj_on ?f (set ?js)" unfolding js by (simp add: inj_on_def)
  have data: "set ?data = {0, 1, 2, 3}" unfolding set_map [of ?f] js by simp
  have "count_list ?data b = 256" if "b \<in> set ?data" for b
  proof -
    from that obtain j where j: "j \<in> set ?js" "b = ?f j" unfolding set_map [of ?f] by blast
    then have "j < 4" unfolding js by auto
    with count_list_inj_map [OF inj j(1)] count_pattern [of j 256] j(2) show ?thesis by simp
  qed
  from shannon_uniform [OF _ this] have "shannon ?data = log 2 (real (card (set ?data)))" by simp
  also have "\<dots> = log 2 (2 ^ 2)" unfolding data by simp
  also have "\<dots> = 2" by (simp only: log_pow_cancel)
  finally show ?thesis by (simp add: comp_def)
qed

lemma entropy_tests:
  empty_data_has_zero_entropy uniform_data_has_zero_entropy repeated_pattern_has_low_entropy text_has_moderate_entropy
  classify_entropy_levels
proof -
  show empty_data_has_zero_entropy
    by (simp add: empty_data_has_zero_entropy_def shannon_entropy_def exact_f64_def)
  show uniform_data_has_zero_entropy
    by (simp add: uniform_data_has_zero_entropy_def shannon_entropy_exact shannon_replicate)
  show repeated_pattern_has_low_entropy
    using pattern_entropy by (simp add: repeated_pattern_has_low_entropy_def shannon_entropy_exact)
  show text_has_moderate_entropy
  proof -
    let ?data = "str_bytes test_text"
    have len: "length ?data = 91" by (simp add: str_bytes_def test_text_def)
    then have "?data \<noteq> []" by auto
    have "card (set ?data) \<le> card (set test_text)" by (simp add: str_bytes_def card_image_le)
    also have "card (set test_text) \<le> 32" by code_simp
    finally have "log 2 (real (card (set ?data))) \<le> log 2 (2 ^ 5)"
      using \<open>?data \<noteq> []\<close> by (simp add: card_gt_0_iff)
    also have "\<dots> = 5" by (simp only: log_pow_cancel)
    finally have "shannon ?data \<le> 5"
      using shannon_le_log_card [OF \<open>?data \<noteq> []\<close>] by simp
    moreover have "351 / 91 \<le> shannon ?data"
      using shannon_ge [OF \<open>?data \<noteq> []\<close>] by (simp add: len log_weight_bytes log_weight_text)
    ultimately show ?thesis
      by (simp add: text_has_moderate_entropy_def shannon_entropy_exact len)
  qed
  show classify_entropy_levels
    by (simp add: classify_entropy_levels_def classify_exact)
qed

section \<open>worker.rs, grpc.rs, handlers/backups.rs\<close>

definition backup_job_serialization_roundtrip :: "(backup_job, 'j) codec \<Rightarrow> uuid \<Rightarrow> uuid \<Rightarrow> bool" where
  "backup_job_serialization_roundtrip json i tenant_id =
     (let job = \<lparr> j_backup_id = i, j_tenant_id = tenant_id, j_source_path = ''/data/test'', j_encryption_enabled = True \<rparr>
      in case to_json json job of
           Inl e \<Rightarrow> False
         | Inr text \<Rightarrow>
             (case of_json json text of
                Inl e \<Rightarrow> False
              | Inr deserialized \<Rightarrow>
                  j_backup_id job = j_backup_id deserialized \<and> j_tenant_id job = j_tenant_id deserialized \<and>
                  j_source_path job = j_source_path deserialized \<and>
                  j_encryption_enabled job = j_encryption_enabled deserialized))"

definition status_update_construction :: bool where
  "status_update_construction =
     (let update = \<lparr> su_backup_id = ''550e8400-e29b-41d4-a716-446655440000'', su_status = ''running'' \<rparr>
      in su_status update = ''running'' \<and> su_backup_id update \<noteq> [])"

definition processing_result_construction :: "'f f64_ops \<Rightarrow> bool" where
  "processing_result_construction F =
     (let result = \<lparr> pr_backup_id = ''550e8400-e29b-41d4-a716-446655440000'', pr_status = ''completed'',
            pr_size_bytes = 1048576, pr_entropy = f_lit F (45 / 10), pr_suspicious = False, pr_error_message = [] \<rparr>
      in pr_status result = ''completed'' \<and> pr_size_bytes result = 1048576 \<and> \<not> pr_suspicious result)"

definition failed_result_carries_error_message :: "'f f64_ops \<Rightarrow> bool" where
  "failed_result_carries_error_message F =
     (let result = \<lparr> pr_backup_id = ''550e8400-e29b-41d4-a716-446655440000'', pr_status = ''failed'',
            pr_size_bytes = 0, pr_entropy = f_lit F 0, pr_suspicious = False, pr_error_message = ''disk full'' \<rparr>
      in pr_status result = ''failed'' \<and> pr_error_message result = ''disk full'')"

definition valid_paths_accepted :: bool where
  "valid_paths_accepted =
     (is_ok (validate_source_path ''/home/user/data'') \<and> is_ok (validate_source_path ''/var/backups/daily''))"

definition empty_path_rejected :: bool where
  "empty_path_rejected = (\<not> is_ok (validate_source_path []))"

definition relative_path_rejected :: bool where
  "relative_path_rejected = (\<not> is_ok (validate_source_path ''relative/path''))"

definition traversal_rejected :: bool where
  "traversal_rejected = (\<not> is_ok (validate_source_path ''/home/../etc/passwd''))"

lemma small_tests:
  "codec_ok json \<Longrightarrow> (\<And>job. is_ok (to_json json job)) \<Longrightarrow> backup_job_serialization_roundtrip json i tenant_id"
  status_update_construction "processing_result_construction F" "failed_result_carries_error_message F"
  valid_paths_accepted empty_path_rejected relative_path_rejected traversal_rejected
proof -
  show "backup_job_serialization_roundtrip json i tenant_id" if "codec_ok json" and total: "\<And>job. is_ok (to_json json job)"
  proof -
    let ?job = "\<lparr> j_backup_id = i, j_tenant_id = tenant_id, j_source_path = ''/data/test'', j_encryption_enabled = True \<rparr>"
    obtain payload where ser: "to_json json ?job = Inr payload" using total [of ?job] by (cases "to_json json ?job") auto
    moreover from this have "of_json json payload = Inr ?job" using that(1) by (simp add: codec_ok_def)
    ultimately show ?thesis by (simp add: backup_job_serialization_roundtrip_def)
  qed
  show valid_paths_accepted empty_path_rejected relative_path_rejected traversal_rejected by code_simp+
qed (simp_all add: status_update_construction_def processing_result_construction_def failed_result_carries_error_message_def)

section \<open>The tests pass\<close>

text \<open>
  The model passes the program's own unit tests. For every library and job codec that reads back
  what it writes, all fresh ids (distinct tenants where the test draws two) and every clock on
  which a test takes less than a minute, each of the twenty-five unit tests of the repository holds of the
  definitions; the Redis round trip runs on the reference store, connected or not, the entropy
  tests on exact arithmetic.
\<close>

theorem unit_tests_pass:
  assumes "within_a_minute now" and "tenant_a \<noteq> tenant_b" and "codec_ok json" and "\<And>job. is_ok (to_json json job)"
  shows "merge_only_set_fields \<and> merge_empty_update_changes_nothing \<and> merge_rate_limit_both_fields \<and>
    noop_get_backup_returns_none L \<and> noop_get_tenant_backups_returns_none L \<and> noop_ping_returns_false L \<and>
    noop_set_and_invalidate_dont_panic L t1 t2 \<and>
    redis_roundtrip_when_available mem_libs open_client connect env i tenant_a t1 t2 \<and>
    allows_requests_under_limit tenant_a now \<and> blocks_requests_over_limit tenant_a now \<and>
    separate_tenants_have_separate_limits tenant_a tenant_b now \<and> remaining_count_decreases tenant_a now \<and>
    empty_data_has_zero_entropy \<and> uniform_data_has_zero_entropy \<and> repeated_pattern_has_low_entropy \<and>
    text_has_moderate_entropy \<and> classify_entropy_levels \<and>
    backup_job_serialization_roundtrip json i tenant_a \<and>
    status_update_construction \<and> processing_result_construction F \<and> failed_result_carries_error_message F \<and>
    valid_paths_accepted \<and> empty_path_rejected \<and> relative_path_rejected \<and> traversal_rejected"
  by (intro conjI merge_tests noop_tests redis_roundtrip entropy_tests limiter_tests small_tests assms)

lemma unit_tests_pass_witness:
  "separate_tenants_have_separate_limits 1 2 (\<lambda>i. i) \<and> backup_job_serialization_roundtrip demo_job_json 5 1"
  using unit_tests_pass [of "\<lambda>i. i" 1 2 demo_job_json mem_libs 0 0 "\<lambda>_. Inr ()" "\<lambda>_. Inl (RedisError [])" Map.empty 5 exact_f64]
  by (simp add: within_a_minute_def demo_job_json_def codec_ok_def)

end
