(* ===== verification/Spec2Isabelle.thy ===== *)
theory Spec2Isabelle
  imports Linearization Lifecycle Delivery Unit_Tests
begin

text \<open>
  \<^bold>\<open>The backup service\<close>. A multi-tenant REST service that keeps backup records in PostgreSQL, caches
  them in Redis, limits requests per tenant, and hands processing jobs to a separate worker over
  RabbitMQ, which reports back over gRPC (\<^verbatim>\<open>crates/backup-service\<close>, \<^verbatim>\<open>crates/backup-common\<close>,
  \<^verbatim>\<open>crates/backup-worker\<close>, \<^verbatim>\<open>migrations\<close>, \<^verbatim>\<open>proto\<close>). The development is a shallow embedding:
  every function is a definition that reads like the Rust (or C, or SQL) it models, with all early
  returns, on explicit state.

  \<^bold>\<open>How the parts interact\<close>. A request passes the router, the authentication middleware (token to
  claims), the rate limiter (a counter per tenant) and the extractors, and reaches a handler. A
  handler runs statements on the table and keeps the cache in step: reads fill it, writes delete
  the entries of the row and of its tenant's list. The handler of \<^verbatim>\<open>/process\<close> publishes a job; the
  worker takes it from the queue, calls \<^verbatim>\<open>UpdateStatus\<close>, computes an entropy with the C routine, and
  calls \<^verbatim>\<open>ReportResult\<close>; both calls change the same table, past the cache. A background task polls
  an Apollo endpoint and changes five settings that the limiter, the cache and the list handler
  read. \<^verbatim>\<open>main\<close> sets up telemetry, reads the environment, migrates the schema, opens the connections,
  starts the gRPC and the HTTP server, and shuts everything down in order after a signal. Requests
  run concurrently: the runtime switches between them at every \<^verbatim>\<open>.await\<close>, and drops them when a client
  goes away or the timeout layer gives up.

  \<^bold>\<open>Theories and the code they model\<close>.
  \<^item> \<^verbatim>\<open>Prelude\<close>: integer types, \<open>or_keep\<close>, facts on lists, maps and clamps.
  \<^item> \<^verbatim>\<open>Rust_Std\<close>, \<^verbatim>\<open>Uuid_Text\<close>: the parts of the standard library the code uses (decimal printing and
    parsing at 64 bits, string tests), and the text form of UUIDs.
  \<^item> \<^verbatim>\<open>Models\<close>, \<^verbatim>\<open>Errors\<close>, \<^verbatim>\<open>Http\<close>: \<^verbatim>\<open>models.rs\<close>, \<^verbatim>\<open>errors.rs\<close>, and replies.
  \<^item> \<^verbatim>\<open>Config\<close>, \<^verbatim>\<open>Apollo\<close>: \<^verbatim>\<open>config.rs\<close>; \<^verbatim>\<open>apollo/merge.rs\<close>, \<^verbatim>\<open>apollo/fetch.rs\<close> and its start in \<^verbatim>\<open>main.rs\<close>.
  \<^item> \<^verbatim>\<open>Entropy\<close>: \<^verbatim>\<open>ffi.rs\<close> and \<^verbatim>\<open>entropy.c\<close> over a record of floating point operations.
  \<^item> \<^verbatim>\<open>Backup_Table\<close>: the table of \<^verbatim>\<open>001_create_backups.sql\<close> as a list of rows, and each statement of
    \<^verbatim>\<open>handlers/backups.rs\<close> and \<^verbatim>\<open>grpc.rs\<close> as a function on it. A \<open>link\<close> says what happens to a
    statement: answered, refused before it ran, or executed with its answer lost.
  \<^item> \<^verbatim>\<open>Cache_Layer\<close>: \<^verbatim>\<open>cache.rs\<close>. \<^verbatim>\<open>Rate_Limit\<close>: \<^verbatim>\<open>middleware/rate_limit.rs\<close>, with the keyed runs that
    separate the tenants of an interleaving. \<^verbatim>\<open>Auth\<close>:
    \<^verbatim>\<open>middleware/auth.rs\<close>, \<^verbatim>\<open>handlers/auth.rs\<close>. \<^verbatim>\<open>Jobs\<close>: \<^verbatim>\<open>worker.rs\<close> of \<^verbatim>\<open>backup-common\<close>.
  \<^item> \<^verbatim>\<open>App\<close>: \<^verbatim>\<open>state.rs\<close>; the libraries gathered in a record. \<^verbatim>\<open>Handlers\<close>: \<^verbatim>\<open>handlers/backups.rs\<close>,
    \<^verbatim>\<open>handlers/health.rs\<close>. \<^verbatim>\<open>Grpc_Service\<close>: \<^verbatim>\<open>grpc.rs\<close>. \<^verbatim>\<open>Worker\<close>: \<^verbatim>\<open>main.rs\<close> of \<^verbatim>\<open>backup-worker\<close>,
    with the record of its calls over arbitrary libraries. \<^verbatim>\<open>Delivery\<close>: the worker over many deliveries of
    the queue's messages, each with its own failures, and the queue as a state machine.
    \<^verbatim>\<open>Router\<close>: \<^verbatim>\<open>router.rs\<close>. \<^verbatim>\<open>Migrations\<close>: \<^verbatim>\<open>db.rs\<close> and the start-up in \<^verbatim>\<open>main.rs\<close>.
  \<^item> \<^verbatim>\<open>Telemetry\<close>: \<^verbatim>\<open>telemetry.rs\<close>. \<^verbatim>\<open>Lifecycle\<close>: the two \<^verbatim>\<open>main\<close> functions from start to exit.
  \<^item> \<^verbatim>\<open>Tasks\<close>: what is left of an asynchronous function as a task, its composition, and rules for tasks
    under interference. \<^verbatim>\<open>Handler_Tasks\<close>: the handlers and middlewares as tasks, one action per \<^verbatim>\<open>.await\<close>
    on the shared state and per read of the configuration. \<^verbatim>\<open>Layers\<close>: the layers of \<^verbatim>\<open>create_router\<close> and
    the metrics route. \<^verbatim>\<open>Concurrent\<close>: the service under a scheduler that interleaves requests in any
    order, with its invariant. \<^verbatim>\<open>Api_Types\<close>: the types of the answers. \<^verbatim>\<open>Interleavings\<close>: what holds under
    every interleaving, and the two races of cache and table. \<^verbatim>\<open>Linearization\<close>: every interleaving against
    a sequential execution of complete handlers.
  \<^item> \<^verbatim>\<open>Unit_Tests\<close>: the in-file test modules of the three crates, on the model. \<^verbatim>\<open>Demo_Service\<close>: a running
    instance for the witnesses.
  \<^item> \<^verbatim>\<open>Freshness\<close>: the relation between cache and table that the handlers keep. \<^verbatim>\<open>System\<close>: the service
    as a step relation (requests, gRPC calls, reloads, expiry), its reachable states and invariants.

  \<^bold>\<open>Parameters\<close>. Code that is not in the repository is an argument: Redis commands, JSON codecs, the
  JWT library, the AMQP client, the HTTP client of the updater, axum's extractors, the address
  parser, the layers of tower-http, the OpenTelemetry objects, and PostgreSQL's choice among equal sort
  keys, which may depend on \<^verbatim>\<open>LIMIT\<close> and \<^verbatim>\<open>OFFSET\<close>. The broker may lose a message it is sent, whatever
  the client's call answers, as publishing is not confirmed. The driver prepares every statement. What the code relies on is the assumptions
  of a locale (\<^verbatim>\<open>redis_cache\<close>, \<^verbatim>\<open>jwt_library\<close>, \<^verbatim>\<open>amqp_broker\<close>, \<^verbatim>\<open>planner\<close>, \<^verbatim>\<open>tower_layers\<close>), each interpreted on an executable
  reference implementation, on which the witnesses run. Contracts between components of the program
  are locales too (\<^verbatim>\<open>table_stmt\<close> and its refinements for the statements, \<^verbatim>\<open>backup_cache\<close> for the
  cache, \<^verbatim>\<open>interference\<close> for tasks), interpreted on the model's own definitions. Clocks, generated keys and the fate of each
  statement and call are inputs, universally quantified in the properties.

  \<^bold>\<open>What the properties show\<close>. Isolation: under every interleaving of actions, no response shows and no
  action changes a row of a tenant other than the token's, and what is shown was stored. Agreement:
  a request performed action by action without interference is the handler as one step (a lemma of
  \<^verbatim>\<open>Handler_Tasks\<close>), so the sequential properties speak of the same code; and every interleaving leaves the table and the job
  counters as some sequence of complete handlers and worker calls does. Types: every answer has the status and
  body of its route, and a request that is given up wrote all or nothing. Refinement: as long as no answer of an executed statement is lost and no
  gRPC call interferes, a service with the cache answers as one without. Function: each handler and
  gRPC method on every branch, listing and paging, login, the layers, the limiter against a
  fixed-window specification at one tenant, last-value semantics of the updater, Shannon entropy of
  the C routine with its 64 bit counters, the configuration read back from an environment.
  Delivery and lifecycle: the message of an accepted job, where it arrives, leads to a completed row;
  redelivery is harmless whatever failed in between; each delivery is settled once; the queue drains
  as long as undisturbed deliveries occur; both processes set up and shut down in order. Faults the
  model exposes: stale entries after gRPC updates, after lost answers, after a race of a read with a
  write and after a dropped request; pages of the wrong size after a reload, rows of one creation time
  that no page shows, accepted jobs that never reach the queue, jobs of deleted backups that circulate for ever, a worker that goes on without its consumer, reports on unknown backups that
  are acknowledged, a migration script that the driver's protocol refuses, a limiter that admits
  twice its limit around a window end, and a poll interval of zero.

  \<^bold>\<open>Bounds\<close>. Times of the limiter are natural numbers of nanoseconds since the limiter was made;
  wall clock seconds of tokens are below \<open>2 ^ 63\<close>. Counters, limits and sizes are words at the width
  of the code and wrap; properties of counters bound the number of requests by \<open>2 ^ 64\<close>. There is no
  fuel: the updater's loop and the worker's loop run over the finite list of what they have received
  so far, and the C loops are over finite arrays. The queue's runs are finite sequences of deliveries of any
  length. The entropy properties are over exact arithmetic;
  rounding of doubles is not modelled. A panic is \<open>None\<close>.

  \<^bold>\<open>Not modelled\<close>. Log messages. The signal itself: the events before and after it are given, and the
  servers' accept loops are parameters of \<^verbatim>\<open>main\<close>. Two statements are never in the database at the same
  time: every statement is atomic, which is what PostgreSQL gives to single-row statements. What an action
  waits for (a connection of the pool, the limiter's lock, a server) is not modelled either: a task that waits
  is one that is not scheduled, for ever if need be, so nothing is said of how long a request takes. Two deliveries
  to workers that overlap in time are not interleaved call by call. A gRPC call
  of the worker is one action, as each of its calls has one statement. The integration tests
  under \<^verbatim>\<open>tests\<close> need a database and are left out; of the unit tests, the entropy ones are run over
  exact arithmetic and the Redis one on the reference store. The module files hold no code, and the
  unused newtypes of \<^verbatim>\<open>models.rs\<close> are left out.
\<close>

section \<open>The whole service\<close>

text \<open>
  No tenant sees another's backups. In every state the running service can reach, whatever
  requests, worker calls, reloads, lost connections and expiries led there, a response that shows
  any backup answers a request with a valid token, and every backup it shows belongs to the tenant
  of that token; also when it comes from the cache and when that entry is stale.
\<close>

theorem responses_show_own_rows:
  assumes S: "service_ok S" and start: "sys_ok S s0" and reach: "reachable S s0 (a, m)"
    and run: "handle_request (sv_libs S) (sv_extract S) ck cx rq a = (Some response, a')"
    and shown: "r \<in> set (body_rows (rp_body response))"
  shows "\<exists>token c. hq_headers rq ''Authorization'' = Some (''Bearer '' @ token) \<and>
    verify_token (lb_auth (sv_libs S)) (ck_wall ck) token (jwt_secret (a_config a)) = Inr c \<and>
    r_tenant_id r = cl_tenant_id c"
proof -
  have own: "lists_own (sv_libs S) (sv_contents S) (a_cache a)"
    using reachable_ok [OF S start reach] by (simp add: sys_ok_def)
  have libs: "redis_cache (lb_cache (sv_libs S)) (sv_contents S) (sv_settle S)"
    "jwt_library (lb_auth (sv_libs S))" "planner (lb_order (sv_libs S))"
    using S by (simp_all add: service_ok_def)
  from shown have "body_rows (rp_body response) \<noteq> []" by auto
  from handle_request_body [OF libs(2) run this] obtain c call inner where
    c: "authorized (sv_libs S) ck rq a c"
      "fst (run_handler (sv_libs S) cx c call a) = Some (Inr inner)" "rp_body response = rp_body inner"
    by blast
  with run_handler_shows_own [OF libs(1,3) own c(2)] shown have "r_tenant_id r = cl_tenant_id c" by simp
  with c(1) show ?thesis unfolding authorized_def admits_def by blast
qed

lemma responses_show_own_rows_witness:
  "\<exists>token c. hq_headers (demo_get (std_uuid_fmt 1)) ''Authorization'' = Some (''Bearer '' @ token) \<and>
    verify_token demo_jwt 0 token (jwt_secret dev_config) = Inr c \<and> r_tenant_id (response_of (demo_row 1)) = cl_tenant_id c"
proof -
  obtain response a' where r: "handle_request (sv_libs demo_service) (sv_extract demo_service)
      \<lparr> ck_wall = 0, ck_utc = 0, ck_mono = 0 \<rparr> (demo_cx 1)
      (demo_get (std_uuid_fmt 1)) (demo_app [demo_row 1]) = (Some response, a')"
    and b: "rp_body response = BackupBody (response_of (demo_row 1))"
    using demo_get_response by auto
  show ?thesis
    using responses_show_own_rows [OF demo_service_ok demo_sys_ok Start r, of "response_of (demo_row 1)"] b by simp
qed

text \<open>
  The running service keeps its data in order. In every reachable state the table satisfies its
  key and check constraints, and no reload has changed a secret, an address or a connection URL.
\<close>

theorem reachable_states_ok:
  assumes S: "service_ok S" and start: "sys_ok S (a0, m0)" and reach: "reachable S (a0, m0) (a, m)"
  shows "distinct (map b_id (a_db a)) \<and>
    (\<forall>b \<in> set (a_db a). b_status b \<in> {''pending'', ''running'', ''completed'', ''failed''}) \<and>
    jwt_secret (a_config a) = jwt_secret (a_config a0) \<and>
    database_url (a_config a) = database_url (a_config a0) \<and>
    redis_url (a_config a) = redis_url (a_config a0) \<and> amqp_url (a_config a) = amqp_url (a_config a0) \<and>
    listen_addr (a_config a) = listen_addr (a_config a0) \<and> grpc_addr (a_config a) = grpc_addr (a_config a0)"
  using reachable_ok [OF S start reach]
  by (simp add: sys_ok_def table_ok_def status_check_def protected_part_def)

lemma reachable_states_ok_witness:
  "jwt_secret (a_config (settle_app mem_tick (demo_app [demo_row 1]))) = jwt_secret dev_config"
proof -
  have "reachable demo_service (demo_app [demo_row 1], \<lparr> m_success = 0, m_failure = 0 \<rparr>)
      (settle_app mem_tick (demo_app [demo_row 1]), \<lparr> m_success = 0, m_failure = 0 \<rparr>)"
    using reachable.Step [OF reachable.Start, OF sys_step.Settle, of demo_service] by simp
  from reachable_states_ok [OF demo_service_ok demo_sys_ok this] show ?thesis by simp
qed

text \<open>
  C15: A login lasts a day. The token of a successful login, sent as the response says, opens the
  protected routes with the user's claims until a minute after the day is over, and from then on
  is answered 401 with nothing touched; whatever reloads happened to the configuration meanwhile.
\<close>

theorem login_opens_session:
  assumes J: "jwt_library J" and lg: "login J config now req = Inr response"
    and range: "0 \<le> now" "now + 86400 < 2 ^ 63"
    and reload: "run_updater_loop decode up ticks config = Some config'"
  shows "lg_expires_in response = 24 * 60 * 60 \<and>
    auth_middleware J config' t [''Authorization'' \<mapsto> lg_token_type response @ '' '' @ lg_token response] nxt s =
      (if int t \<le> now + 86460
       then nxt \<lparr> cl_sub = lq_username req, cl_tenant_id = demo_tenant,
                  cl_roles = (if lq_username req = ''admin'' then [''admin'', ''user''] else [''user'']),
                  cl_exp = word_of_int (now + 86400), cl_iat = word_of_int now \<rparr> s
       else (Some (reply 401 (ErrorBody ''invalid token'' 401)), s))"
proof -
  let ?roles = "if lq_username req = ''admin'' then [''admin'', ''user''] else [''user'']"
  have secret: "jwt_secret config' = jwt_secret config"
    using updater_loop_protected [OF reload] by (simp add: protected_part_def)
  have tok: "create_token J now (lq_username req) demo_tenant ?roles (jwt_secret config) = Inr (lg_token response)"
    and ty: "lg_token_type response = ''Bearer''" and ex: "lg_expires_in response = 86400"
    using lg by (auto simp: login_def split: if_splits sum.splits)
  note t = jwt_library.created_token [OF J tok range]
  have hdr: "lg_token_type response @ '' '' @ lg_token response = ''Bearer '' @ lg_token response"
    by (simp add: ty)
  show ?thesis
  proof (cases "int t \<le> now + 86460")
    case True
    have v: "verify_token J t (lg_token response) (jwt_secret config) =
        Inr \<lparr> cl_sub = lq_username req, cl_tenant_id = demo_tenant, cl_roles = ?roles,
              cl_exp = word_of_int (now + 86400), cl_iat = word_of_int now \<rparr>"
      using t(1) [of t] True by (simp only: if_True)
    show ?thesis
      unfolding hdr auth_middleware_def t(3) sum.case secret v using True ex by simp
  next
    case False
    then have "\<not> is_ok (verify_token J t (lg_token response) (jwt_secret config))" using t(2) [of t] by simp
    then obtain j where v: "verify_token J t (lg_token response) (jwt_secret config) = Inl (Jwt j)"
      by (cases "jw_decode J (lg_token response) (jwt_secret config) t") (simp_all add: verify_token_def)
    show ?thesis
      unfolding hdr auth_middleware_def t(3) sum.case secret v using False ex
      by (simp add: error_reply_def into_response_def)
  qed
qed

lemma login_opens_session_witness:
  "\<exists>response. login demo_jwt dev_config 0 \<lparr> lq_username = ''user'', lq_password = ''user'' \<rparr> = Inr response \<and>
     fst (auth_middleware demo_jwt dev_config 90000
       [''Authorization'' \<mapsto> lg_token_type response @ '' '' @ lg_token response]
       (\<lambda>c s. (Some (reply 200 NoBody :: nat http_reply), s)) ()) = Some (reply 401 (ErrorBody ''invalid token'' 401))"
proof -
  obtain response where lg: "login demo_jwt dev_config 0 \<lparr> lq_username = ''user'', lq_password = ''user'' \<rparr> = Inr response"
    using demo_token_signed by (simp add: login_def create_token_def demo_user_def demo_claims_def)
  have "run_updater_loop (\<lambda>_. Inr no_remote_update) \<lparr> up_url = ''u'', up_interval = 1, up_timeout = 1 \<rparr> [] dev_config = Some dev_config"
    by (simp add: run_updater_loop_def)
  from login_opens_session [OF demo_jwt.jwt_library_axioms lg _ _ this, of 90000
      "\<lambda>c s. (Some (reply 200 NoBody :: nat http_reply), s)" "()"] lg show ?thesis by simp
qed

text \<open>
  C30: The worker's updates leave the cache stale. When the worker reports a new status for a
  backup whose row is cached, the row changes and the entry stays: until it expires, the owner's GET
  returns the old status, though the handlers of the REST interface never leave such an entry.
\<close>

theorem worker_update_leaves_stale_entry:
  assumes ok: "table_ok (a_db a)" and row: "row_of i (a_db a) = Some b"
    and cached: "cache_get_backup (lb_cache L) (a_cache a) i = Some b" and owner: "cl_tenant_id c = b_tenant_id b"
    and link: "gx_link X = Up" and id: "parse_backup_id X (su_backup_id msg) = Inr i"
    and status: "status_check (su_status msg)"
  shows "case update_status X msg (a_db a) of (r, t) \<Rightarrow>
    is_ok r \<and> row_of i t = Some (b\<lparr> b_status := su_status msg, b_updated_at := gx_now X \<rparr>) \<and>
    fst (get_backup L cx c i (a\<lparr> a_db := t \<rparr>)) = Inr (reply 200 (BackupBody (response_of b)))"
proof -
  obtain r t where u: "update_status X msg (a_db a) = (r, t)" by fastforce
  show ?thesis
    using update_status_up(1,2) [OF ok link id status] row cached owner
    by (simp add: u get_backup_def set_status_row_def)
qed

lemma demo_cached:
  "cache_get_backup mem_libs (a_cache (snd (get_backup demo_libs (demo_cx 1) demo_user 1 (demo_app [demo_row 1])))) 1 =
     Some (demo_row 1)"
proof -
  have "owned_row 1 (cl_tenant_id demo_user) [demo_row 1] = Some (demo_row 1)"
    by (simp add: owned_row_def owned_def demo_user_def)
  then show ?thesis
    by (simp add: get_backup_def fetch_owned_Up cache_get_backup_def cache_set_backup_def cache_ttl_def ok_def
        mem_contents_def empty_store_def dev_config_def)
qed

lemma worker_update_leaves_stale_entry_witness:
  "\<exists>a t. update_status (demo_gx 9) \<lparr> su_backup_id = uu_fmt std_uuid 1, su_status = ''completed'' \<rparr> (a_db a) =
       (Inr \<lparr> ak_success = True, ak_message = ''status updated'' \<rparr>, t) \<and>
     map_option b_status (row_of 1 t) = Some ''completed'' \<and>
     fst (get_backup demo_libs (demo_cx 3) demo_user 1 (a\<lparr> a_db := t \<rparr>)) =
       Inr (reply 200 (BackupBody (response_of (demo_row 1))))"
proof -
  let ?a = "snd (get_backup demo_libs (demo_cx 1) demo_user 1 (demo_app [demo_row 1]))"
  let ?msg = "\<lparr> su_backup_id = uu_fmt std_uuid 1, su_status = ''completed'' \<rparr>"
  obtain r t where u: "update_status (demo_gx 9) ?msg (a_db ?a) = (r, t)" by fastforce
  have "r = Inr \<lparr> ak_success = True, ak_message = ''status updated'' \<rparr>"
    using u update_status_up(1) [of "a_db ?a" "demo_gx 9" ?msg 1] by simp
  moreover from worker_update_leaves_stale_entry [of ?a 1 "demo_row 1" demo_libs demo_user "demo_gx 9" ?msg "demo_cx 3"] u
  have "map_option b_status (row_of 1 t) = Some ''completed''"
    "fst (get_backup demo_libs (demo_cx 3) demo_user 1 (?a\<lparr> a_db := t \<rparr>)) =
       Inr (reply 200 (BackupBody (response_of (demo_row 1))))"
    using demo_cached by (simp_all add: demo_user_tenant)
  ultimately show ?thesis using u by blast
qed

text \<open>
  C32: A reload can make the list cache answer with pages of the wrong size. The cache key of a list
  has no limit in it: once a reload has made another limit the cached one, a request with that
  limit is answered with the page cached under the old limit, longer than what was asked for, under
  a response that says it has the new limit.
\<close>

theorem reload_serves_page_of_old_size:
  assumes cached: "cache_get_tenant_backups (lb_cache L) (a_cache a) (cl_tenant_id c) = Some (items, tot)"
    and limit: "u_cached_list_limit u = Some l" "1 \<le> sint l" "sint l \<le> 100" "sint l < int (length items)"
    and offset: "u_cached_list_offset u = None" "0 \<le> sint (cached_list_offset (a_config a))"
  shows "\<exists>response. fst (list_backups L cx c \<lparr> lp_offset = cached_list_offset (a_config a), lp_limit = l, lp_status = None \<rparr>
      (with_config_mut (\<lambda>cfg. apply_update cfg u) a)) = Inr response \<and>
    (\<exists>page. rp_body response = ListBody page \<and> lr_limit page = l \<and>
      lr_items page = map response_of items \<and> sint (lr_limit page) < int (length (lr_items page)))"
proof -
  let ?p = "\<lparr> lp_offset = cached_list_offset (a_config a), lp_limit = l, lp_status = None \<rparr>"
  have "list_limit ?p = l" "list_offset ?p = cached_list_offset (a_config a)"
    using limit(2,3) offset(2) by (auto simp: list_limit_def list_offset_def i64_clamp_def i64_max_def)
  then show ?thesis
    using cached limit offset
    by (simp add: list_backups_def use_list_cache_def with_config_mut_def list_reply_def Let_def)
qed

definition demo_pair :: table where
  "demo_pair = [demo_row 1, demo_row 2]"

lemma demo_listed [simp]: "listed demo_tenant None (demo_row i)"
  by (simp add: listed_def)

lemma demo_list_cached:
  "cache_get_tenant_backups mem_libs (a_cache (snd (list_backups demo_libs (demo_cx 1) demo_user
     (list_params_of None None None) (demo_app demo_pair)))) demo_tenant = Some (demo_pair, 2)"
proof -
  let ?p = "list_params_of None None None"
  have lo: "list_limit ?p = 20" "list_offset ?p = 0" "lp_status ?p = None"
    by (simp_all add: list_limit_def list_offset_def list_params_of_def i64_clamp_def i64_max_def default_limit_def)
  have use: "use_list_cache dev_config ?p"
    by (simp add: use_list_cache_def lo dev_config_def)
  have rows: "filter (listed demo_tenant None) demo_pair = demo_pair"
    by (simp add: demo_pair_def)
  have "order_created_desc demo_pair = demo_pair"
    by (simp add: order_created_desc_def demo_pair_def)
  then have fetch: "fetch_page demo_libs (demo_cx 1) demo_user None 20 0 (demo_app demo_pair) =
      (Inr (demo_pair, 2), demo_app demo_pair)"
    by (subst fetch_page_Up) (simp_all add: demo_user_tenant rows page_def demo_pair_def)
  have "cache_get_tenant_backups mem_libs (Some empty_store) demo_tenant = None"
    by (simp add: cache_get_tenant_backups_def mem_contents_def empty_store_def ok_def)
  moreover have "cache_ttl_secs dev_config = 300" by (simp add: dev_config_def)
  ultimately show ?thesis
    by (simp add: list_backups_def lo use fetch demo_user_tenant Let_def cache_set_tenant_backups_def
        cache_get_tenant_backups_def cache_ttl_def ok_def mem_contents_def empty_store_def)
qed

lemma reload_serves_page_of_old_size_witness:
  "\<exists>a response page. fst (list_backups demo_libs (demo_cx 2) demo_user \<lparr> lp_offset = 0, lp_limit = 1, lp_status = None \<rparr> a) =
     Inr response \<and> rp_body response = ListBody page \<and> lr_limit page = 1 \<and> length (lr_items page) = 2"
proof -
  let ?a = "snd (list_backups demo_libs (demo_cx 1) demo_user (list_params_of None None None) (demo_app demo_pair))"
  have "cached_list_offset (a_config ?a) = 0" by (simp add: dev_config_def)
  with reload_serves_page_of_old_size [of demo_libs ?a demo_user demo_pair 2
      "no_remote_update\<lparr> u_cached_list_limit := Some 1 \<rparr>" 1 "demo_cx 2"] demo_list_cached
  show ?thesis
    by (fastforce simp: demo_user_tenant no_remote_update_def demo_pair_def)
qed

text \<open>
  C5: A queued backup gets done. When a request to process a backup is accepted, nothing but the
  broker has changed, and the job queue is as before or has, at its end, one message more, which reads
  back as the job of that backup (publishing is not confirmed, so the message may not have arrived).
  Whenever a worker receives that message and the service answers, the backup, if it is still
  there, ends up completed with the simulated size, the delivery is acknowledged, and every other
  row is as it was.
\<close>

theorem accepted_job_completes:
  assumes B: "amqp_broker (lb_amqp L) queued routes" and json: "codec_ok (lb_job_json L)"
    and chan: "a_amqp a = Some q"
    and acc: "enqueue_backup L cx c i a = (Some (Inr response), a')"
    and U: "uuid_text U" and ok: "table_ok (ww_db w)" and row: "row_of i (ww_db w) = Some b"
    and up: "ww_update_link w = Up" "ww_report_link w = Up"
  shows "\<exists>q' payload r. a' = a\<lparr> a_amqp := Some q' \<rparr> \<and>
    (queued q' QUEUE_NAME = queued q QUEUE_NAME \<or> queued q' QUEUE_NAME = queued q QUEUE_NAME @ [payload]) \<and>
    of_json (lb_job_json L) payload = Inr (job_of r) \<and> owned_row i (cl_tenant_id c) (a_db a) = Some r \<and>
    rp_code response = 202 \<and>
    (case worker_loop (service_libs U pg (lb_job_json L) F) [Delivered n payload None] w of (exit, w') \<Rightarrow>
       exit = Consuming \<and> ww_log w' = ww_log w @ [(n, Acked)] \<and>
       row_of i (ww_db w') =
         Some (b\<lparr> b_status := ''completed'',
                 b_size_bytes := (if b_source_path r = [] then 0 else 1048576), b_updated_at := ww_now w \<rparr>) \<and>
       (\<forall>j. j \<noteq> i \<longrightarrow> row_of j (ww_db w') = row_of j (ww_db w)))"
proof -
  obtain f where f: "fetch_owned L cx c i a = (f, a)"
    using fetch_owned_state by (metis prod.collapse)
  obtain r where r: "f = Inr r" using acc f by (cases f) (auto simp: enqueue_backup_def)
  then have own: "owned_row i (cl_tenant_id c) (a_db a) = Some r" and id: "b_id r = i"
    using fetch_owned_Inr [of L cx c i a r] f find_ownedD by (auto simp: owned_row_def)
  obtain u q' where p: "publish_job (lb_job_json L) (lb_amqp L) (job_of r) q = Some (Inr u, q')"
    and a': "a' = a\<lparr> a_amqp := Some q' \<rparr>" and code: "rp_code response = 202"
    using acc f r chan
    by (auto simp: enqueue_backup_def split: option.splits sum.splits amqp_error.splits prod.splits)
  from amqp_broker.publish_outcome [OF B p, of QUEUE_NAME] obtain payload where
    pl: "to_json (lb_job_json L) (job_of r) = Inr payload"
    "queued q' QUEUE_NAME = queued q QUEUE_NAME \<or> queued q' QUEUE_NAME = queued q QUEUE_NAME @ [payload]"
    by blast
  have dec: "of_json (lb_job_json L) payload = Inr (job_of r)" using json pl(1) by (simp add: codec_ok_def)
  have jid: "j_backup_id (job_of r) = i" using id by (simp add: job_of_def)
  obtain x w1 where run: "process_and_report (service_libs U pg (lb_job_json L) F) (job_of r) None w = (x, w1)" by fastforce
  from process_known [OF U ok, of "job_of r" b pg "lb_job_json L" F] row up jid run
  have fin: "is_ok x" "row_of i (ww_db w1) = Some (finished_row (job_of r) (ww_now w) b)"
    "\<forall>j. j \<noteq> i \<longrightarrow> row_of j (ww_db w1) = row_of j (ww_db w)"
    by auto
  have log: "ww_log w1 = ww_log w" using process_log [of U pg "lb_job_json L" F "job_of r" None w] run by simp
  from fin(1) obtain y where "x = Inr y" by (rule is_okE)
  then have "case worker_loop (service_libs U pg (lb_job_json L) F) [Delivered n payload None] w of (exit, w') \<Rightarrow>
       exit = Consuming \<and> ww_log w' = ww_log w @ [(n, Acked)] \<and>
       row_of i (ww_db w') =
         Some (b\<lparr> b_status := ''completed'',
                 b_size_bytes := (if b_source_path r = [] then 0 else 1048576), b_updated_at := ww_now w \<rparr>) \<and>
       (\<forall>j. j \<noteq> i \<longrightarrow> row_of j (ww_db w') = row_of j (ww_db w))"
    using run dec fin log by (simp add: finished_row_def job_of_def)
  then show ?thesis using a' pl(2) code own dec
    by (intro exI [where x = q'] exI [where x = payload] exI [where x = r] conjI) simp_all
qed

definition demo_broker :: "doc mem_broker" where
  "demo_broker = snd (connect_rabbitmq mem_amqp ''amqp'' empty_broker)"

lemma demo_broker_routes: "mem_routes demo_broker EXCHANGE_NAME ROUTING_KEY QUEUE_NAME"
  and demo_broker_exchange: "mb_exchanges demo_broker EXCHANGE_NAME \<noteq> None"
  and demo_broker_empty: "mb_messages demo_broker n = []"
  by (simp_all add: demo_broker_def connect_rabbitmq_def empty_broker_def mem_routes_def)

lemma accepted_job_completes_witness:
  "\<exists>response a' payload. enqueue_backup demo_libs (demo_cx 1) demo_user 5 ((demo_app [demo_row 5])\<lparr> a_amqp := Some demo_broker \<rparr>) =
       (Some (Inr response), a') \<and> of_json demo_job_codec payload = Inr (job_of (demo_row 5)) \<and>
     map_option b_status (row_of 5 (ww_db (snd (worker_loop (service_libs std_uuid (\<lambda>_. []) demo_job_codec exact_f64)
       [Delivered 1 payload None] (demo_world [demo_row 5] Up))))) = Some ''completed''"
proof -
  let ?a = "(demo_app [demo_row 5])\<lparr> a_amqp := Some demo_broker \<rparr>"
  have own: "owned_row 5 (cl_tenant_id demo_user) [demo_row 5] = Some (demo_row 5)"
    by (simp add: owned_row_def owned_def demo_user_tenant)
  obtain q1 where "publish_job demo_job_codec mem_amqp (job_of (demo_row 5)) demo_broker = Some (Inr (), q1)"
    using demo_broker_exchange by (auto simp: publish_job_def demo_job_codec_def)
  then obtain response a' where e: "enqueue_backup demo_libs (demo_cx 1) demo_user 5 ?a = (Some (Inr response), a')"
    using own by (simp add: enqueue_backup_def fetch_owned_Up)
  have B: "amqp_broker (lb_amqp demo_libs) mb_messages mem_routes" by (simp add: mem_amqp.amqp_broker_axioms)
  from accepted_job_completes [OF B _ _ e std_uuid_text, where w = "demo_world [demo_row 5] Up"
      and b = "demo_row 5" and pg = "\<lambda>_. []" and F = exact_f64 and n = 1 and q = demo_broker] own
  obtain payload where "of_json demo_job_codec payload = Inr (job_of (demo_row 5))"
    "case worker_loop (service_libs std_uuid (\<lambda>_. []) demo_job_codec exact_f64) [Delivered 1 payload None]
       (demo_world [demo_row 5] Up) of (exit, w') \<Rightarrow>
       map_option b_status (row_of 5 (ww_db w')) = Some ''completed''"
    by (fastforce simp del: worker_loop.simps)
  with e show ?thesis by (fastforce split: prod.splits simp del: worker_loop.simps)
qed

text \<open>
  C39: An accepted job can vanish. A broker that obeys the rules of the protocol may lose every message
  on its way, as the channel is not in confirm mode. With it a request to process a backup is
  answered as accepted, and nothing whatsoever has changed: no message waits for a worker, the row
  is as it was, and the caller has no way to tell.
\<close>

theorem accepted_job_can_vanish:
  assumes row: "owned_row i (cl_tenant_id c) (a_db a) = Some r" and link: "cx_link cx = Up"
    and chan: "a_amqp a = Some q" and json: "to_json (lb_job_json L) (job_of r) = Inr payload"
  shows "let L' = L\<lparr> lb_amqp := lossy_amqp \<rparr> in
    amqp_broker (lb_amqp L') mb_messages mem_routes \<and>
    enqueue_backup L' cx c i a = (Some (Inr (reply 202 (EnqueuedBody ''backup job enqueued'' i))), a)"
  unfolding Let_def
proof
  show "amqp_broker (lb_amqp (L\<lparr> lb_amqp := lossy_amqp \<rparr>)) mb_messages mem_routes"
    by (simp add: lossy_amqp.amqp_broker_axioms)
  have "fetch_owned (L\<lparr> lb_amqp := lossy_amqp \<rparr>) cx c i a = (Inr r, a)"
    using row link by (simp add: fetch_owned_Up)
  then show "enqueue_backup (L\<lparr> lb_amqp := lossy_amqp \<rparr>) cx c i a =
      (Some (Inr (reply 202 (EnqueuedBody ''backup job enqueued'' i))), a)"
    using chan json by (cases a) (simp add: enqueue_backup_def publish_job_def)
qed

lemma accepted_job_can_vanish_witness:
  "fst (enqueue_backup (demo_libs\<lparr> lb_amqp := lossy_amqp \<rparr>) (demo_cx 1) demo_user 5
     ((demo_app [demo_row 5])\<lparr> a_amqp := Some demo_broker \<rparr>)) =
     Some (Inr (reply 202 (EnqueuedBody ''backup job enqueued'' 5)))"
proof -
  let ?a = "(demo_app [demo_row 5])\<lparr> a_amqp := Some demo_broker \<rparr>"
  have "owned_row 5 (cl_tenant_id demo_user) (a_db ?a) = Some (demo_row 5)"
    by (simp add: owned_row_def owned_def demo_user_tenant)
  moreover have "to_json (lb_job_json demo_libs) (job_of (demo_row 5)) = Inr (demo_doc_of (job_of (demo_row 5)))"
    by (simp add: demo_job_codec_def)
  ultimately have "enqueue_backup (demo_libs\<lparr> lb_amqp := lossy_amqp \<rparr>) (demo_cx 1) demo_user 5 ?a =
      (Some (Inr (reply 202 (EnqueuedBody ''backup job enqueued'' 5))), ?a)"
    using accepted_job_can_vanish [of 5 demo_user ?a "demo_row 5" "demo_cx 1" demo_broker demo_libs] by (simp add: Let_def)
  then show ?thesis by (rule arg_cong [where f = fst, THEN trans]) simp
qed

end
